theory Spec2Isabelle
  imports
    Main
    "HOL-Library.Word"
    "HOL-Library.Code_Target_Nat"
    "HOL-Library.Char_ord"
    "HOL-Library.List_Lexorder"
    "HOL-Library.Product_Lexorder"
begin

section \<open>Row cells and runtime failures\<close>

text \<open>
  A row is a Go slice of \<^verbatim>\<open>interface{}\<close> values. The cell type lists the dynamic types
  that \<^verbatim>\<open>dml_events.go\<close> distinguishes. Machine integers are words of their width;
  Go's \<^verbatim>\<open>int\<close> and \<^verbatim>\<open>uint\<close> are taken as 64 bits wide. A byte slice is
  \<open>None\<close> when it is the nil slice and \<open>Some bs\<close> otherwise, so the empty non-nil
  slice is \<open>Some []\<close>. A floating-point cell is represented by the text that the library
  call \<^verbatim>\<open>strconv.AppendFloat(nil, float64(v), 'g', -1, 64)\<close> produces for it, and a decimal
  cell by the text its \<^verbatim>\<open>String\<close> method returns; both are library code outside this
  repository. \<open>VOther\<close> stands for a value of any other dynamic type, none of which
  is of an integer kind.
\<close>

datatype cell =
    VNil
  | VInt8 "8 word"
  | VInt16 "16 word"
  | VInt32 "32 word"
  | VInt64 "64 word"
  | VInt "64 word"
  | VUint8 "8 word"
  | VUint16 "16 word"
  | VUint32 "32 word"
  | VUint64 "64 word"
  | VUint "64 word"
  | VString string
  | VBytes "string option"
  | VBool bool
  | VFloat64 string
  | VFloat32 string
  | VDecimal string
  | VOther

text \<open>
  A Go panic ends the call without a return value. The model returns \<open>Inl\<close> of the
  panic; a normal return is \<open>Inr\<close> of the returned values, with the Go \<^verbatim>\<open>error\<close> as an
  \<open>error option\<close> beside them (\<open>None\<close> is the nil error).
\<close>

datatype panic =
    IndexOutOfRange nat nat
  | ZeroColumns nat nat
  | UnsupportedType
  | ReflectValueInt
  | TypeAssertion

datatype EventType =
    WRITE_ROWS_EVENTv1 | WRITE_ROWS_EVENTv2
  | UPDATE_ROWS_EVENTv1 | UPDATE_ROWS_EVENTv2
  | DELETE_ROWS_EVENTv1 | DELETE_ROWS_EVENTv2
  | OTHER_EVENT

datatype error =
    ColumnCountMismatch string string nat nat
  | UnrecognizedRowsEvent EventType
  | ExpectedUnsigned nat
  | ErrSyntax string
  | ErrRange string
  | SqlError string

section \<open>Literal escaping\<close>

definition isNilValue :: "cell \<Rightarrow> bool" where
  "isNilValue value =
     (if value = VNil then True
      else case value of VBytes vb \<Rightarrow> (if vb = None then True else False) | _ \<Rightarrow> False)"

definition Uint64Value :: "cell \<Rightarrow> 64 word option" where
  "Uint64Value value =
     (case value of
        VUint64 v \<Rightarrow> Some v
      | VUint32 v \<Rightarrow> Some (ucast v)
      | VUint16 v \<Rightarrow> Some (ucast v)
      | VUint8 v \<Rightarrow> Some (ucast v)
      | VUint v \<Rightarrow> Some v
      | _ \<Rightarrow> None)"

definition Int64Value :: "cell \<Rightarrow> 64 word option" where
  "Int64Value value =
     (case value of
        VInt64 v \<Rightarrow> Some v
      | VInt32 v \<Rightarrow> Some (scast v)
      | VInt16 v \<Rightarrow> Some (scast v)
      | VInt8 v \<Rightarrow> Some (scast v)
      | VInt v \<Rightarrow> Some v
      | _ \<Rightarrow> None)"

text \<open>
  \<^verbatim>\<open>strconv.AppendUint(buffer, n, 10)\<close> and \<^verbatim>\<open>strconv.AppendInt(buffer, n, 10)\<close> of the Go
  library: the decimal digits of the number, after a minus sign when it is negative.
\<close>

definition digitChar :: "nat \<Rightarrow> char" where
  "digitChar d = ''0123456789'' ! d"

fun formatUint :: "nat \<Rightarrow> string" where
  "formatUint n = (if n < 10 then [digitChar n] else formatUint (n div 10) @ [digitChar (n mod 10)])"

declare formatUint.simps [simp del]

definition AppendUint :: "string \<Rightarrow> 64 word \<Rightarrow> string" where
  "AppendUint buffer n = buffer @ formatUint (unat n)"

definition AppendInt :: "string \<Rightarrow> 64 word \<Rightarrow> string" where
  "AppendInt buffer n =
     (if sint n < 0 then buffer @ ''-'' @ formatUint (nat (- sint n))
      else buffer @ formatUint (nat (sint n)))"

fun appendEscapedLoop :: "string \<Rightarrow> string \<Rightarrow> string" where
  "appendEscapedLoop buffer [] = buffer"
| "appendEscapedLoop buffer (c # cs) =
     (if c = CHR 0x27 then appendEscapedLoop (buffer @ [CHR 0x27, CHR 0x27]) cs
      else appendEscapedLoop (buffer @ [c]) cs)"

definition appendEscapedString :: "string \<Rightarrow> string \<Rightarrow> string" where
  "appendEscapedString buffer value = appendEscapedLoop (buffer @ [CHR 0x27]) value @ [CHR 0x27]"

definition appendEscapedBuffer :: "string \<Rightarrow> string \<Rightarrow> string" where
  "appendEscapedBuffer buffer value =
     appendEscapedLoop (buffer @ ''_binary'' @ [CHR 0x27]) value @ [CHR 0x27]"

definition appendEscapedValue :: "string \<Rightarrow> cell \<Rightarrow> panic + string" where
  "appendEscapedValue buffer value =
     (if isNilValue value then Inr (buffer @ ''NULL'')
      else case Uint64Value value of
        Some uintv \<Rightarrow> Inr (AppendUint buffer uintv)
      | None \<Rightarrow>
         (case Int64Value value of
            Some intv \<Rightarrow> Inr (AppendInt buffer intv)
          | None \<Rightarrow>
             (case value of
                VString v \<Rightarrow> Inr (appendEscapedString buffer v)
              | VBytes v \<Rightarrow> Inr (appendEscapedBuffer buffer (case v of None \<Rightarrow> [] | Some bs \<Rightarrow> bs))
              | VBool v \<Rightarrow> Inr (if v then buffer @ ''1'' else buffer @ ''0'')
              | VFloat64 v \<Rightarrow> Inr (buffer @ v)
              | VFloat32 v \<Rightarrow> Inr (buffer @ v)
              | VDecimal v \<Rightarrow> Inr (appendEscapedString buffer v)
              | _ \<Rightarrow> Inl UnsupportedType)))"

section \<open>Building the value lists of a statement\<close>

text \<open>
  Each builder is a loop over \<^verbatim>\<open>values\<close> with its index \<open>i\<close> and the byte buffer built so
  far. \<^verbatim>\<open>columns[i]\<close> panics when \<open>i\<close> is not an index of \<^verbatim>\<open>columns\<close>.
\<close>

fun valuesLoop :: "nat \<Rightarrow> cell list \<Rightarrow> string \<Rightarrow> panic + string" where
  "valuesLoop i [] buffer = Inr buffer"
| "valuesLoop i (value # values) buffer =
     (case appendEscapedValue (if 0 < i then buffer @ '','' else buffer) value of
        Inl p \<Rightarrow> Inl p
      | Inr buffer' \<Rightarrow> valuesLoop (Suc i) values buffer')"

definition buildStringListForValues :: "cell list \<Rightarrow> panic + string" where
  "buildStringListForValues values = valuesLoop 0 values []"

fun whereLoop :: "string list \<Rightarrow> nat \<Rightarrow> cell list \<Rightarrow> string \<Rightarrow> panic + string" where
  "whereLoop columns i [] buffer = Inr buffer"
| "whereLoop columns i (value # values) buffer =
     (if i < length columns then
        (if isNilValue value then
           whereLoop columns (Suc i) values
             ((if 0 < i then buffer @ '' AND '' else buffer) @ columns ! i @ '' IS NULL'')
         else
           (case appendEscapedValue
                   ((if 0 < i then buffer @ '' AND '' else buffer) @ columns ! i @ ''='') value of
              Inl p \<Rightarrow> Inl p
            | Inr buffer' \<Rightarrow> whereLoop columns (Suc i) values buffer'))
      else Inl (IndexOutOfRange i (length columns)))"

definition buildStringMapForWhere :: "string list \<Rightarrow> cell list \<Rightarrow> panic + string" where
  "buildStringMapForWhere columns values = whereLoop columns 0 values []"

fun setLoop :: "string list \<Rightarrow> nat \<Rightarrow> cell list \<Rightarrow> string \<Rightarrow> panic + string" where
  "setLoop columns i [] buffer = Inr buffer"
| "setLoop columns i (value # values) buffer =
     (if i < length columns then
        (case appendEscapedValue
                ((if 0 < i then buffer @ '','' else buffer) @ columns ! i @ ''='') value of
           Inl p \<Rightarrow> Inl p
         | Inr buffer' \<Rightarrow> setLoop columns (Suc i) values buffer')
      else Inl (IndexOutOfRange i (length columns)))"

definition buildStringMapForSet :: "string list \<Rightarrow> cell list \<Rightarrow> panic + string" where
  "buildStringMapForSet columns values = setLoop columns 0 values []"

section \<open>Schema, row storage and statement objects\<close>

record Column =
  Name :: string
  IsUnsigned :: bool

record Table =
  Schema :: string
  Name :: string
  Columns :: "Column list"
  PKColumns :: "nat list"

text \<open>
  A \<^verbatim>\<open>RowData\<close> value is a slice: a reference to a backing array of cells. The rows of
  an event and the row images kept by the statement objects are references into one
  store, which maps each reference to the cells of its array. Writing \<^verbatim>\<open>row[i] = v\<close>
  updates the store at the row's reference, and every holder of that reference sees it.
  Two rows are either the same slice or share no storage.
\<close>

type_synonym ref = nat
type_synonym heap = "ref \<Rightarrow> cell list"

record RowsEvent =
  Rows :: "ref list"

datatype Event = IsRowsEvent RowsEvent | NotRowsEvent

record EventHeader =
  EventType :: EventType

record BinlogEvent =
  Header :: EventHeader
  Event :: Event

text \<open>
  The three statement classes. Each holds its row images as the slices it was given and
  its own copy of the table (\<^verbatim>\<open>DMLEventBase{table: *table}\<close>).
\<close>

datatype DMLEvent =
    BinlogInsertEvent ref Table
  | BinlogUpdateEvent ref ref Table
  | BinlogDeleteEvent ref Table

fun TableSchema :: "DMLEvent \<Rightarrow> Table" where
  "TableSchema (BinlogInsertEvent newValues table) = table"
| "TableSchema (BinlogUpdateEvent oldValues newValues table) = table"
| "TableSchema (BinlogDeleteEvent oldValues table) = table"

definition Database :: "DMLEvent \<Rightarrow> string" where
  "Database e = Schema (TableSchema e)"

fun OldValues :: "DMLEvent \<Rightarrow> ref option" where
  "OldValues (BinlogInsertEvent newValues table) = None"
| "OldValues (BinlogUpdateEvent oldValues newValues table) = Some oldValues"
| "OldValues (BinlogDeleteEvent oldValues table) = Some oldValues"

fun NewValues :: "DMLEvent \<Rightarrow> ref option" where
  "NewValues (BinlogInsertEvent newValues table) = Some newValues"
| "NewValues (BinlogUpdateEvent oldValues newValues table) = Some newValues"
| "NewValues (BinlogDeleteEvent oldValues table) = None"

definition at :: "'a list \<Rightarrow> nat \<Rightarrow> panic + 'a" where
  "at xs i = (if i < length xs then Inr (xs ! i) else Inl (IndexOutOfRange i (length xs)))"

definition verifyValuesHasTheSameLengthAsColumns :: "Table \<Rightarrow> cell list \<Rightarrow> error option" where
  "verifyValuesHasTheSameLengthAsColumns table values =
     (if length (Columns table) \<noteq> length values
      then Some (ColumnCountMismatch (Schema table) (Table.Name table)
                   (length (Columns table)) (length values))
      else None)"

section \<open>Primary key extraction\<close>

text \<open>
  \<^verbatim>\<open>strconv.ParseUint(s, 10, 64)\<close> of the Go library. It reads the bytes from the left:
  a byte that is no decimal digit is a syntax error, a value beyond 64 bits a range error
  (returned with the largest value), and the empty string a syntax error.
\<close>

definition isDigit :: "char \<Rightarrow> bool" where
  "isDigit c = (48 \<le> (of_char c :: nat) \<and> (of_char c :: nat) \<le> 57)"

fun parseUintLoop :: "string \<Rightarrow> string \<Rightarrow> nat \<Rightarrow> 64 word \<times> error option" where
  "parseUintLoop s [] n = (of_nat n, None)"
| "parseUintLoop s (c # cs) n =
     (if \<not> isDigit c then (0, Some (ErrSyntax s))
      else if 1844674407370955162 \<le> n then (- 1, Some (ErrRange s))
      else if 18446744073709551615 < n * 10 + (of_char c - 48) then (- 1, Some (ErrRange s))
      else parseUintLoop s cs (n * 10 + (of_char c - 48)))"

definition ParseUint :: "string \<Rightarrow> 64 word \<times> error option" where
  "ParseUint s = (if s = [] then (0, Some (ErrSyntax s)) else parseUintLoop s s 0)"

text \<open>
  \<^verbatim>\<open>reflect.ValueOf(x).Int()\<close> of the Go library returns the value of \<open>x\<close> when its kind
  is one of the signed integer kinds and panics for every other kind, the unsigned
  integers among them.
\<close>

definition reflectInt :: "cell \<Rightarrow> panic + 64 word" where
  "reflectInt x =
     (case x of
        VInt8 v \<Rightarrow> Inr (scast v)
      | VInt16 v \<Rightarrow> Inr (scast v)
      | VInt32 v \<Rightarrow> Inr (scast v)
      | VInt64 v \<Rightarrow> Inr v
      | VInt v \<Rightarrow> Inr v
      | _ \<Rightarrow> Inl ReflectValueInt)"

definition GetUint64 :: "cell list \<Rightarrow> nat \<Rightarrow> panic + (64 word \<times> error option)" where
  "GetUint64 r colIdx =
     (case at r colIdx of
        Inl p \<Rightarrow> Inl p
      | Inr x \<Rightarrow>
         (case x of
            VBytes valueByteSlice \<Rightarrow>
              (case ParseUint (case valueByteSlice of None \<Rightarrow> [] | Some bs \<Rightarrow> bs) of
                 (res, Some err) \<Rightarrow> Inr (0, Some err)
               | (res, None) \<Rightarrow> Inr (res, None))
          | _ \<Rightarrow>
              (case reflectInt x of
                 Inl p \<Rightarrow> Inl p
               | Inr signedInt \<Rightarrow>
                   (if sint signedInt < 0 then Inr (0, Some (ExpectedUnsigned colIdx))
                    else Inr (signedInt, None)))))"

definition pkFromEventData :: "Table \<Rightarrow> cell list \<Rightarrow> panic + (64 word \<times> error option)" where
  "pkFromEventData table rowData =
     (case verifyValuesHasTheSameLengthAsColumns table rowData of
        Some err \<Rightarrow> Inr (0, Some err)
      | None \<Rightarrow>
         (case at (PKColumns table) 0 of
            Inl p \<Rightarrow> Inl p
          | Inr pkIndex \<Rightarrow> GetUint64 rowData pkIndex))"

fun PK :: "DMLEvent \<Rightarrow> heap \<Rightarrow> panic + (64 word \<times> error option)" where
  "PK (BinlogInsertEvent newValues table) h = pkFromEventData table (h newValues)"
| "PK (BinlogUpdateEvent oldValues newValues table) h = pkFromEventData table (h newValues)"
| "PK (BinlogDeleteEvent oldValues table) h = pkFromEventData table (h oldValues)"

section \<open>Identifier quoting\<close>

text \<open>
  Modelled from the spec: \<^verbatim>\<open>quoteField\<close> is called by
  \<^verbatim>\<open>loadColumnsAndValuesInIntersection\<close> but defined in a file that is not among the
  sources. The specification says that every identifier is wrapped in backticks and that
  any backtick inside an identifier is doubled.
\<close>

fun doubleBackticks :: "string \<Rightarrow> string" where
  "doubleBackticks [] = []"
| "doubleBackticks (c # cs) =
     (if c = CHR 0x60 then CHR 0x60 # CHR 0x60 # doubleBackticks cs else c # doubleBackticks cs)"

definition quoteField :: "string \<Rightarrow> string" where
  "quoteField field = [CHR 0x60] @ doubleBackticks field @ [CHR 0x60]"

text \<open>
  Modelled from the spec: \<^verbatim>\<open>QuotedTableNameFromString\<close> is called by the three
  \<^verbatim>\<open>AsSQLString\<close> methods but defined in a file that is not among the sources. The
  specification gives the qualified name as the quoted schema, a dot, and the quoted table.
\<close>

definition QuotedTableNameFromString :: "string \<Rightarrow> string \<Rightarrow> string" where
  "QuotedTableNameFromString database table = quoteField database @ ''.'' @ quoteField table"

text \<open>\<^verbatim>\<open>strings.Join(elems, sep)\<close> of the Go library.\<close>

fun Join :: "string list \<Rightarrow> string \<Rightarrow> string" where
  "Join [] sep = []"
| "Join [x] sep = x"
| "Join (x # y # ys) sep = x @ sep @ Join (y # ys) sep"

section \<open>Projection onto the intersection schema\<close>

text \<open>
  The inner loop of \<^verbatim>\<open>loadColumnsAndValuesInIntersection\<close> searches the intersection's
  columns for the name of one source column and stops at the first match; the outer loop
  walks the source columns with their index and collects the indices and quoted names of
  those that matched.
\<close>

fun nameInIntersection :: "Column \<Rightarrow> Column list \<Rightarrow> bool" where
  "nameInIntersection col [] = False"
| "nameInIntersection col (targetCol # targetCols) =
     (if Column.Name col = Column.Name targetCol then True
      else nameInIntersection col targetCols)"

fun intersectLoop ::
  "nat \<Rightarrow> Column list \<Rightarrow> Column list \<Rightarrow> nat list \<Rightarrow> string list \<Rightarrow> nat list \<times> string list" where
  "intersectLoop colIdx [] targetCols intersectedColumns quotedNames =
     (intersectedColumns, quotedNames)"
| "intersectLoop colIdx (col # cols) targetCols intersectedColumns quotedNames =
     (if nameInIntersection col targetCols
      then intersectLoop (Suc colIdx) cols targetCols
             (intersectedColumns @ [colIdx]) (quotedNames @ [quoteField (Column.Name col)])
      else intersectLoop (Suc colIdx) cols targetCols intersectedColumns quotedNames)"

text \<open>
  The loop over the row images. An image whose length differs from the number of source
  columns ends the call with the error and nil results. Otherwise every collected index
  is an index of the image, and the image is reduced to the cells at those indices.
\<close>

fun intersectValuesLoop ::
  "Table \<Rightarrow> nat list \<Rightarrow> cell list list \<Rightarrow> cell list list \<Rightarrow> cell list list \<times> error option" where
  "intersectValuesLoop table intersectedColumns [] intersectedValueList =
     (intersectedValueList, None)"
| "intersectValuesLoop table intersectedColumns (values # rest) intersectedValueList =
     (case verifyValuesHasTheSameLengthAsColumns table values of
        Some err \<Rightarrow> ([], Some err)
      | None \<Rightarrow>
          intersectValuesLoop table intersectedColumns rest
            (intersectedValueList @ [map (\<lambda>colIdx. values ! colIdx) intersectedColumns]))"

definition loadColumnsAndValuesInIntersection ::
  "Table \<Rightarrow> Table \<Rightarrow> cell list list \<Rightarrow> panic + ((string list \<times> cell list list) \<times> error option)" where
  "loadColumnsAndValuesInIntersection table intersection valuesToVerify =
     (if length (Columns table) = 0 \<or> length (Columns intersection) = 0
      then Inl (ZeroColumns (length (Columns table)) (length (Columns intersection)))
      else
        (case intersectLoop 0 (Columns table) (Columns intersection) [] [] of
           (intersectedColumns, quotedNames) \<Rightarrow>
             (case intersectValuesLoop table intersectedColumns valuesToVerify [] of
                (intersectedValueList, Some err) \<Rightarrow> Inr (([], []), Some err)
              | (intersectedValueList, None) \<Rightarrow> Inr ((quotedNames, intersectedValueList), None))))"

section \<open>Rendering statements\<close>

fun AsSQLString :: "DMLEvent \<Rightarrow> Table \<Rightarrow> heap \<Rightarrow> panic + (string \<times> error option)" where
  "AsSQLString (BinlogInsertEvent newValues table) intersection h =
     (case loadColumnsAndValuesInIntersection table intersection [h newValues] of
        Inl p \<Rightarrow> Inl p
      | Inr ((columns, values), Some err) \<Rightarrow> Inr ([], Some err)
      | Inr ((columns, values), None) \<Rightarrow>
          (case at values 0 of
             Inl p \<Rightarrow> Inl p
           | Inr values0 \<Rightarrow>
               (case buildStringListForValues values0 of
                  Inl p \<Rightarrow> Inl p
                | Inr valueList \<Rightarrow>
                    Inr (''INSERT IGNORE INTO '' @
                         QuotedTableNameFromString (Schema intersection) (Table.Name intersection) @
                         '' ('' @ Join columns '','' @ '')'' @
                         '' VALUES ('' @ valueList @ '')'', None))))"
| "AsSQLString (BinlogUpdateEvent oldValues newValues table) intersection h =
     (case loadColumnsAndValuesInIntersection table intersection [h oldValues, h newValues] of
        Inl p \<Rightarrow> Inl p
      | Inr ((columns, values), Some err) \<Rightarrow> Inr ([], Some err)
      | Inr ((columns, values), None) \<Rightarrow>
          (case at values 1 of
             Inl p \<Rightarrow> Inl p
           | Inr values1 \<Rightarrow>
               (case buildStringMapForSet columns values1 of
                  Inl p \<Rightarrow> Inl p
                | Inr setList \<Rightarrow>
                    (case at values 0 of
                       Inl p \<Rightarrow> Inl p
                     | Inr values0 \<Rightarrow>
                         (case buildStringMapForWhere columns values0 of
                            Inl p \<Rightarrow> Inl p
                          | Inr whereList \<Rightarrow>
                              Inr (''UPDATE '' @
                                   QuotedTableNameFromString (Schema intersection)
                                     (Table.Name intersection) @
                                   '' SET '' @ setList @
                                   '' WHERE '' @ whereList, None))))))"
| "AsSQLString (BinlogDeleteEvent oldValues table) intersection h =
     (case loadColumnsAndValuesInIntersection table intersection [h oldValues] of
        Inl p \<Rightarrow> Inl p
      | Inr ((columns, values), Some err) \<Rightarrow> Inr ([], Some err)
      | Inr ((columns, values), None) \<Rightarrow>
          (case at values 0 of
             Inl p \<Rightarrow> Inl p
           | Inr values0 \<Rightarrow>
               (case buildStringMapForWhere columns values0 of
                  Inl p \<Rightarrow> Inl p
                | Inr whereList \<Rightarrow>
                    Inr (''DELETE FROM '' @
                         QuotedTableNameFromString (Schema intersection) (Table.Name intersection) @
                         '' WHERE '' @ whereList, None))))"

section \<open>Constructing statement objects\<close>

text \<open>
  Each constructor allocates its result with \<^verbatim>\<open>make\<close>, so every entry starts as the nil
  interface (\<open>None\<close>), and fills it by index while ranging over the rows with their
  index \<open>i\<close>. The update constructor skips the odd indices and reads
  \<^verbatim>\<open>rowsEvent.Rows[i+1]\<close> at the even ones; the read is evaluated before the store into
  \<^verbatim>\<open>updateEvents[i/2]\<close>.
\<close>

fun insertLoop :: "Table \<Rightarrow> nat \<Rightarrow> ref list \<Rightarrow> DMLEvent option list \<Rightarrow> panic + DMLEvent option list" where
  "insertLoop table i [] insertEvents = Inr insertEvents"
| "insertLoop table i (row # rest) insertEvents =
     (if i < length insertEvents
      then insertLoop table (Suc i) rest (insertEvents[i := Some (BinlogInsertEvent row table)])
      else Inl (IndexOutOfRange i (length insertEvents)))"

definition NewBinlogInsertEvents ::
  "Table \<Rightarrow> RowsEvent \<Rightarrow> panic + (DMLEvent option list \<times> error option)" where
  "NewBinlogInsertEvents table rowsEvent =
     (case insertLoop table 0 (Rows rowsEvent) (replicate (length (Rows rowsEvent)) None) of
        Inl p \<Rightarrow> Inl p
      | Inr insertEvents \<Rightarrow> Inr (insertEvents, None))"

fun updateLoop ::
  "Table \<Rightarrow> ref list \<Rightarrow> nat \<Rightarrow> ref list \<Rightarrow> DMLEvent option list \<Rightarrow> panic + DMLEvent option list" where
  "updateLoop table rows i [] updateEvents = Inr updateEvents"
| "updateLoop table rows i (row # rest) updateEvents =
     (if i mod 2 = 1 then updateLoop table rows (Suc i) rest updateEvents
      else
        (case at rows (i + 1) of
           Inl p \<Rightarrow> Inl p
         | Inr newRow \<Rightarrow>
             (if i div 2 < length updateEvents
              then updateLoop table rows (Suc i) rest
                     (updateEvents[i div 2 := Some (BinlogUpdateEvent row newRow table)])
              else Inl (IndexOutOfRange (i div 2) (length updateEvents)))))"

definition NewBinlogUpdateEvents ::
  "Table \<Rightarrow> RowsEvent \<Rightarrow> panic + (DMLEvent option list \<times> error option)" where
  "NewBinlogUpdateEvents table rowsEvent =
     (case updateLoop table (Rows rowsEvent) 0 (Rows rowsEvent)
             (replicate (length (Rows rowsEvent) div 2) None) of
        Inl p \<Rightarrow> Inl p
      | Inr updateEvents \<Rightarrow> Inr (updateEvents, None))"

fun deleteLoop :: "Table \<Rightarrow> nat \<Rightarrow> ref list \<Rightarrow> DMLEvent option list \<Rightarrow> panic + DMLEvent option list" where
  "deleteLoop table i [] deleteEvents = Inr deleteEvents"
| "deleteLoop table i (row # rest) deleteEvents =
     (if i < length deleteEvents
      then deleteLoop table (Suc i) rest (deleteEvents[i := Some (BinlogDeleteEvent row table)])
      else Inl (IndexOutOfRange i (length deleteEvents)))"

definition NewBinlogDeleteEvents ::
  "Table \<Rightarrow> RowsEvent \<Rightarrow> panic + (DMLEvent option list \<times> error option)" where
  "NewBinlogDeleteEvents table rowsEvent =
     (case deleteLoop table 0 (Rows rowsEvent) (replicate (length (Rows rowsEvent)) None) of
        Inl p \<Rightarrow> Inl p
      | Inr deleteEvents \<Rightarrow> Inr (deleteEvents, None))"

section \<open>The dispatch entry point\<close>

text \<open>
  The type switch of \<^verbatim>\<open>NewBinlogDMLEvents\<close>: a signed integer becomes the unsigned
  integer of its width by a Go conversion, which keeps the bits; every other cell is
  left as it is.
\<close>

definition toUnsigned :: "cell \<Rightarrow> cell" where
  "toUnsigned v =
     (case v of
        VInt64 x \<Rightarrow> VUint64 x
      | VInt32 x \<Rightarrow> VUint32 x
      | VInt16 x \<Rightarrow> VUint16 x
      | VInt8 x \<Rightarrow> VUint8 x
      | VInt x \<Rightarrow> VUint x
      | _ \<Rightarrow> v)"

text \<open>
  The loop over the columns with their index writes into the row in place. It runs only
  after the row's length was found equal to the number of columns, so \<^verbatim>\<open>row[i]\<close> is
  always in range.
\<close>

fun normalizeColumnsLoop :: "nat \<Rightarrow> Column list \<Rightarrow> cell list \<Rightarrow> cell list" where
  "normalizeColumnsLoop i [] row = row"
| "normalizeColumnsLoop i (col # cols) row =
     normalizeColumnsLoop (Suc i) cols
       (if IsUnsigned col then row[i := toUnsigned (row ! i)] else row)"

text \<open>
  The loop over the rows of the event. Each row is a reference; its cells are read from
  and written back to the store. The first row of the wrong length ends the call with an
  error, after the rows before it have been rewritten.
\<close>

fun normalizeRowsLoop :: "Table \<Rightarrow> ref list \<Rightarrow> heap \<Rightarrow> heap \<times> error option" where
  "normalizeRowsLoop table [] h = (h, None)"
| "normalizeRowsLoop table (row # rows) h =
     (if length (h row) \<noteq> length (Columns table)
      then (h, Some (ColumnCountMismatch (Schema table) (Table.Name table)
                       (length (Columns table)) (length (h row))))
      else normalizeRowsLoop table rows
             (h(row := normalizeColumnsLoop 0 (Columns table) (h row))))"

definition NewBinlogDMLEvents ::
  "Table \<Rightarrow> BinlogEvent \<Rightarrow> heap \<Rightarrow> heap \<times> (panic + (DMLEvent option list \<times> error option))" where
  "NewBinlogDMLEvents table ev h =
     (case Event ev of
        NotRowsEvent \<Rightarrow> (h, Inl TypeAssertion)
      | IsRowsEvent rowsEvent \<Rightarrow>
          (case normalizeRowsLoop table (Rows rowsEvent) h of
             (h', Some err) \<Rightarrow> (h', Inr ([], Some err))
           | (h', None) \<Rightarrow>
               (h',
                case EventType (Header ev) of
                  WRITE_ROWS_EVENTv1 \<Rightarrow> NewBinlogInsertEvents table rowsEvent
                | WRITE_ROWS_EVENTv2 \<Rightarrow> NewBinlogInsertEvents table rowsEvent
                | DELETE_ROWS_EVENTv1 \<Rightarrow> NewBinlogDeleteEvents table rowsEvent
                | DELETE_ROWS_EVENTv2 \<Rightarrow> NewBinlogDeleteEvents table rowsEvent
                | UPDATE_ROWS_EVENTv1 \<Rightarrow> NewBinlogUpdateEvents table rowsEvent
                | UPDATE_ROWS_EVENTv2 \<Rightarrow> NewBinlogUpdateEvents table rowsEvent
                | OTHER_EVENT \<Rightarrow> Inr ([], Some (UnrecognizedRowsEvent OTHER_EVENT)))))"

section \<open>The replica catch-up coordinator\<close>

record Position =
  Name :: string
  Pos :: "32 word"

text \<open>
  Modelled from the spec: \<^verbatim>\<open>mysql.Position\<close> and its \<^verbatim>\<open>Compare\<close> method are not among
  the sources. The specification orders positions lexicographically on the file name and
  then numerically on the offset; \<^verbatim>\<open>Compare\<close> answers 1, -1 or 0 for greater, less and
  equal.
\<close>

definition Compare :: "Position \<Rightarrow> Position \<Rightarrow> int" where
  "Compare p other =
     (if Position.Name other < Position.Name p then 1
      else if Position.Name p < Position.Name other then - 1
      else if Pos other < Pos p then 1
      else if Pos p < Pos other then - 1
      else 0)"

text \<open>
  Modelled from the spec: \<^verbatim>\<open>WithRetries\<close> is not among the sources. The specification
  describes a bounded retry loop that makes up to the given number of attempts, returns
  as soon as one succeeds and surfaces the last error when all have failed. The body acts
  on a state \<open>'s\<close>, which holds whatever the attempts read and write; the time between
  attempts is not represented.
\<close>

fun WithRetries :: "nat \<Rightarrow> ('s \<Rightarrow> error option \<times> 's) \<Rightarrow> 's \<Rightarrow> error option \<times> 's" where
  "WithRetries 0 f s = (None, s)"
| "WithRetries (Suc n) f s =
     (case f s of
        (None, s') \<Rightarrow> (None, s')
      | (Some err, s') \<Rightarrow> (if n = 0 then (Some err, s') else WithRetries n f s'))"

text \<open>
  The coordinator holds the position fetcher and the recorded target position. The fetcher
  reads the replica, whose state is \<open>'db\<close>, and returns a position and an error. The body
  handed to \<^verbatim>\<open>WithRetries\<close> by \<^verbatim>\<open>IsCaughtUp\<close> assigns both results of the fetcher to local
  variables, so the state of the retry loop is the local \<^verbatim>\<open>currentReplicatedMasterPos\<close>
  together with the replica.
\<close>

record 'db WaitUntilReplicaIsCaughtUpToMaster =
  ReplicatedMasterPositionFetcher :: "'db \<Rightarrow> (Position \<times> error option) \<times> 'db"
  targetMasterPos :: Position

definition readReplicatedMasterPos ::
  "'db WaitUntilReplicaIsCaughtUpToMaster \<Rightarrow> Position \<times> 'db \<Rightarrow> error option \<times> (Position \<times> 'db)" where
  "readReplicatedMasterPos w =
     (\<lambda>(currentReplicatedMasterPos, db).
        case ReplicatedMasterPositionFetcher w db of
          ((pos, err), db') \<Rightarrow> (err, (pos, db')))"

definition IsCaughtUp ::
  "'db WaitUntilReplicaIsCaughtUpToMaster \<Rightarrow> 'db \<Rightarrow> (bool \<times> error option) \<times> 'db" where
  "IsCaughtUp w db =
     (case WithRetries 100 (readReplicatedMasterPos w) (\<lparr>Position.Name = [], Pos = 0\<rparr>, db) of
        (Some err, (currentReplicatedMasterPos, db')) \<Rightarrow> ((False, Some err), db')
      | (None, (currentReplicatedMasterPos, db')) \<Rightarrow>
          (if 0 \<le> Compare currentReplicatedMasterPos (targetMasterPos w)
           then ((True, None), db')
           else ((False, None), db')))"

section \<open>Notions used to state the properties\<close>

text \<open>
  The definitions of this section are not translations of source functions. They name what
  the properties speak about: the text of one literal, the fragments of the SET and WHERE
  lists, the projection the specification describes, and the specification's order on
  positions.
\<close>

definition literalText :: "cell \<Rightarrow> string" where
  "literalText v = (case appendEscapedValue [] v of Inl p \<Rightarrow> [] | Inr s \<Rightarrow> s)"

definition whereFragment :: "string \<Rightarrow> cell \<Rightarrow> string" where
  "whereFragment c v = (if isNilValue v then c @ '' IS NULL'' else c @ ''='' @ literalText v)"

definition setFragment :: "string \<Rightarrow> cell \<Rightarrow> string" where
  "setFragment c v = c @ ''='' @ literalText v"

definition leadingMinus :: "string \<Rightarrow> bool" where
  "leadingMinus s = (case s of [] \<Rightarrow> False | c # cs \<Rightarrow> c = CHR ''-'')"

text \<open>
  The specification's projection: the pairs of source index and quoted name of the source
  columns whose name appears among the intersection's columns, in source order.
\<close>

definition matched :: "Table \<Rightarrow> Table \<Rightarrow> (nat \<times> string) list" where
  "matched source intersection =
     map (\<lambda>i. (i, quoteField (Column.Name (Columns source ! i))))
       (filter (\<lambda>i. Column.Name (Columns source ! i) \<in> set (map Column.Name (Columns intersection)))
          [0..<length (Columns source)])"

text \<open>Reading a nil byte slice as the absent value, and every other cell as itself.\<close>

definition nilBytesAsNil :: "cell \<Rightarrow> cell" where
  "nilBytesAsNil v = (if v = VBytes None then VNil else v)"

text \<open>
  The specification's order on positions: lexicographic on the file name, then numeric on
  the offset. It is the lexicographic order of the pair of name and offset.
\<close>

definition reached :: "Position \<Rightarrow> Position \<Rightarrow> bool" where
  "reached p q = ((Position.Name p, Pos p) \<le> (Position.Name q, Pos q))"

section \<open>Inputs of the specification's scenarios\<close>

definition emptyHeap :: heap where
  "emptyHeap r = []"

definition column :: "string \<Rightarrow> bool \<Rightarrow> Column" where
  "column name isUnsigned = \<lparr>Column.Name = name, IsUnsigned = isUnsigned\<rparr>"

definition tableST :: "Column list \<Rightarrow> Table" where
  "tableST cols = \<lparr>Schema = ''s'', Table.Name = ''t'', Columns = cols, PKColumns = [0]\<rparr>"

definition rowsBinlogEvent :: "EventType \<Rightarrow> ref list \<Rightarrow> BinlogEvent" where
  "rowsBinlogEvent ty rows = \<lparr>Header = \<lparr>EventType = ty\<rparr>, Event = IsRowsEvent \<lparr>Rows = rows\<rparr>\<rparr>"

text \<open>
  A replica for the coordinator: its state is the number of polls made so far. The first
  poll fails, the second finds the replica at offset 4000 of the master's file and every
  later one at offset 5000; the recorded target is offset 4096 of the same file.
\<close>

definition heartbeatPosition :: "32 word \<Rightarrow> Position" where
  "heartbeatPosition offset = \<lparr>Position.Name = ''mysql-bin.000007'', Pos = offset\<rparr>"

definition heartbeatFetcher :: "nat \<Rightarrow> (Position \<times> error option) \<times> nat" where
  "heartbeatFetcher polls =
     (if polls = 0 then ((\<lparr>Position.Name = [], Pos = 0\<rparr>, Some (SqlError ''connection lost'')), Suc polls)
      else if polls = 1 then ((heartbeatPosition 4000, None), Suc polls)
      else ((heartbeatPosition 5000, None), Suc polls))"

definition heartbeatCoordinator :: "nat WaitUntilReplicaIsCaughtUpToMaster" where
  "heartbeatCoordinator =
     \<lparr>ReplicatedMasterPositionFetcher = heartbeatFetcher, targetMasterPos = heartbeatPosition 4096\<rparr>"

section \<open>Facts about escaping and the builders\<close>

text \<open>
  Every escaping routine appends to the buffer it is given, so its result is the buffer
  followed by what it appends to the empty buffer. A cell of a supported type is therefore
  rendered as the buffer followed by its literal text, and the only cell that makes the
  escape routine panic is one of an unsupported type.
\<close>

lemma appendEscapedLoop_append:
  "appendEscapedLoop buffer v = buffer @ appendEscapedLoop [] v"
proof (induction v arbitrary: buffer)
  case Nil
  show ?case by simp
next
  case (Cons c cs)
  have a: "appendEscapedLoop (buffer @ [CHR 0x27, CHR 0x27]) cs
             = buffer @ [CHR 0x27, CHR 0x27] @ appendEscapedLoop [] cs"
    using Cons.IH [of "buffer @ [CHR 0x27, CHR 0x27]"] by simp
  have b: "appendEscapedLoop [CHR 0x27, CHR 0x27] cs = [CHR 0x27, CHR 0x27] @ appendEscapedLoop [] cs"
    using Cons.IH [of "[CHR 0x27, CHR 0x27]"] by simp
  have c: "appendEscapedLoop (buffer @ [c]) cs = buffer @ [c] @ appendEscapedLoop [] cs"
    using Cons.IH [of "buffer @ [c]"] by simp
  have d: "appendEscapedLoop [c] cs = [c] @ appendEscapedLoop [] cs"
    using Cons.IH [of "[c]"] by simp
  show ?case using a b c d by simp
qed

lemma appendEscapedString_append:
  "appendEscapedString buffer v = buffer @ appendEscapedString [] v"
  unfolding appendEscapedString_def
  using appendEscapedLoop_append [of "buffer @ [CHR 0x27]" v] appendEscapedLoop_append [of "[CHR 0x27]" v]
  by simp

lemma appendEscapedBuffer_append:
  "appendEscapedBuffer buffer v = buffer @ appendEscapedBuffer [] v"
  unfolding appendEscapedBuffer_def
  using appendEscapedLoop_append [of "buffer @ ''_binary'' @ [CHR 0x27]" v]
    appendEscapedLoop_append [of "''_binary'' @ [CHR 0x27]" v]
  by simp

lemma appendEscapedValue_append:
  "appendEscapedValue buffer v =
     (case appendEscapedValue [] v of Inl p \<Rightarrow> Inl p | Inr s \<Rightarrow> Inr (buffer @ s))"
  using appendEscapedString_append [of buffer] appendEscapedBuffer_append [of buffer]
  by (cases v) (simp_all add: appendEscapedValue_def isNilValue_def Uint64Value_def Int64Value_def
      AppendUint_def AppendInt_def)

lemma appendEscapedValue_supported:
  "v \<noteq> VOther \<Longrightarrow> appendEscapedValue buffer v = Inr (buffer @ literalText v)"
  unfolding literalText_def
  by (subst appendEscapedValue_append, cases v)
     (simp_all add: appendEscapedValue_def isNilValue_def Uint64Value_def Int64Value_def)

lemma appendEscapedValue_VOther: "appendEscapedValue buffer VOther = Inl UnsupportedType"
  by (simp add: appendEscapedValue_def isNilValue_def Uint64Value_def Int64Value_def)

lemma isNilValue_iff: "isNilValue v \<longleftrightarrow> v = VNil \<or> v = VBytes None"
  by (cases v) (simp_all add: isNilValue_def)

lemma appendEscapedValue_nil: "isNilValue v \<Longrightarrow> appendEscapedValue buffer v = Inr (buffer @ ''NULL'')"
  by (simp add: appendEscapedValue_def)

text \<open>
  The three builders put a separator before every element but the first. On rows whose
  cells are all supported they return the fragments joined by the separator.
\<close>

lemma Join_Cons: "Join (x # xs) sep = x @ concat (map (\<lambda>y. sep @ y) xs)"
  by (induction xs arbitrary: x) simp_all

lemma concat_enumerate_pos:
  "0 < n \<Longrightarrow>
   concat (map (\<lambda>(k, v). (if 0 < k then sep else []) @ f k v) (enumerate n vs))
     = concat (map (\<lambda>y. sep @ y) (map (\<lambda>(k, v). f k v) (enumerate n vs)))"
  by (induction vs arbitrary: n) simp_all

lemma concat_enumerate_Join:
  "concat (map (\<lambda>(k, v). (if 0 < k then sep else []) @ f k v) (enumerate 0 vs))
     = Join (map (\<lambda>(k, v). f k v) (enumerate 0 vs)) sep"
proof (cases vs)
  case Nil
  then show ?thesis by simp
next
  case (Cons v vs')
  show ?thesis
    unfolding Cons using concat_enumerate_pos [of "Suc 0" sep f vs']
    by (simp add: Join_Cons)
qed

lemma valuesLoop_supported:
  "VOther \<notin> set values \<Longrightarrow>
   valuesLoop i values buffer =
     Inr (buffer @ concat (map (\<lambda>(k, v). (if 0 < k then '','' else []) @ literalText v)
                             (enumerate i values)))"
proof (induction "values" arbitrary: i buffer)
  case Nil
  show ?case by simp
next
  case (Cons v vs)
  then have v: "v \<noteq> VOther" and vs: "VOther \<notin> set vs" by auto
  show ?case
    by (simp add: appendEscapedValue_supported [OF v] Cons.IH [OF vs])
qed

lemma setLoop_supported:
  "VOther \<notin> set values \<Longrightarrow> i + length values \<le> length columns \<Longrightarrow>
   setLoop columns i values buffer =
     Inr (buffer @ concat (map (\<lambda>(k, v). (if 0 < k then '','' else []) @ setFragment (columns ! k) v)
                             (enumerate i values)))"
proof (induction "values" arbitrary: i buffer)
  case Nil
  show ?case by simp
next
  case (Cons v vs)
  then have v: "v \<noteq> VOther" and vs: "VOther \<notin> set vs"
    and i: "i < length columns" and len: "Suc i + length vs \<le> length columns" by auto
  show ?case
    by (simp add: i appendEscapedValue_supported [OF v] Cons.IH [OF vs len] setFragment_def)
qed

lemma whereLoop_supported:
  "VOther \<notin> set values \<Longrightarrow> i + length values \<le> length columns \<Longrightarrow>
   whereLoop columns i values buffer =
     Inr (buffer @ concat (map (\<lambda>(k, v). (if 0 < k then '' AND '' else []) @ whereFragment (columns ! k) v)
                             (enumerate i values)))"
proof (induction "values" arbitrary: i buffer)
  case Nil
  show ?case by simp
next
  case (Cons v vs)
  then have v: "v \<noteq> VOther" and vs: "VOther \<notin> set vs"
    and i: "i < length columns" and len: "Suc i + length vs \<le> length columns" by auto
  show ?case
    by (simp add: i appendEscapedValue_supported [OF v] Cons.IH [OF vs len] whereFragment_def)
qed

lemma map_enumerate_snd: "map (\<lambda>(k, v). g v) (enumerate n vs) = map g vs"
  by (induction vs arbitrary: n) simp_all

lemma buildStringListForValues_supported:
  "VOther \<notin> set values \<Longrightarrow>
   buildStringListForValues values = Inr (Join (map literalText values) '','')"
  unfolding buildStringListForValues_def
  using concat_enumerate_Join [of "'',''" "\<lambda>k v. literalText v" "values"]
  by (simp add: valuesLoop_supported map_enumerate_snd)

lemma map_enumerate_nth:
  "n + length vs \<le> length cs \<Longrightarrow>
   map (\<lambda>(k, v). g (cs ! k) v) (enumerate n vs) = map (\<lambda>(c, v). g c v) (zip (drop n cs) vs)"
proof (induction vs arbitrary: n)
  case Nil
  show ?case by simp
next
  case (Cons v vs)
  then have n: "n < length cs" and len: "Suc n + length vs \<le> length cs" by auto
  show ?case
    using Cons.IH [OF len] by (simp add: Cons_nth_drop_Suc [OF n, symmetric])
qed

lemma buildStringMapForSet_supported:
  "VOther \<notin> set values \<Longrightarrow> length values \<le> length columns \<Longrightarrow>
   buildStringMapForSet columns values =
     Inr (Join (map (\<lambda>(c, v). setFragment c v) (zip columns values)) '','')"
  unfolding buildStringMapForSet_def
  using concat_enumerate_Join [of "'',''" "\<lambda>k v. setFragment (columns ! k) v" "values"]
    map_enumerate_nth [of 0 "values" columns setFragment]
  by (simp add: setLoop_supported)

lemma buildStringMapForWhere_supported:
  "VOther \<notin> set values \<Longrightarrow> length values \<le> length columns \<Longrightarrow>
   buildStringMapForWhere columns values =
     Inr (Join (map (\<lambda>(c, v). whereFragment c v) (zip columns values)) '' AND '')"
  unfolding buildStringMapForWhere_def
  using concat_enumerate_Join [of "'' AND ''" "\<lambda>k v. whereFragment (columns ! k) v" "values"]
    map_enumerate_nth [of 0 "values" columns whereFragment]
  by (simp add: whereLoop_supported)

text \<open>The decimal digits of a number never start with a minus sign.\<close>

lemma digitChar_not_minus: "n < 10 \<Longrightarrow> digitChar n \<noteq> CHR ''-''"
proof -
  assume "n < 10"
  then have "digitChar n \<in> set ''0123456789''"
    unfolding digitChar_def by (intro nth_mem) simp
  then show ?thesis by auto
qed

lemma formatUint_nonempty: "formatUint n \<noteq> []"
  by (subst formatUint.simps) simp

lemma leadingMinus_append: "xs \<noteq> [] \<Longrightarrow> leadingMinus (xs @ ys) = leadingMinus xs"
  by (cases xs) (simp_all add: leadingMinus_def)

lemma leadingMinus_Cons: "leadingMinus (c # cs) = (c = CHR ''-'')"
  by (simp add: leadingMinus_def)

lemma formatUint_no_minus: "\<not> leadingMinus (formatUint n)"
proof (induction n rule: formatUint.induct)
  case (1 n)
  show ?case
  proof (cases "n < 10")
    case True
    then show ?thesis
      by (subst formatUint.simps) (simp add: leadingMinus_def digitChar_not_minus)
  next
    case False
    with 1 show ?thesis
      by (subst formatUint.simps) (simp add: leadingMinus_append formatUint_nonempty)
  qed
qed

lemma appendEscapedString_no_minus: "\<not> leadingMinus (appendEscapedString [] v)"
  unfolding appendEscapedString_def
  by (subst appendEscapedLoop_append) (simp add: leadingMinus_def)

lemma appendEscapedBuffer_no_minus: "\<not> leadingMinus (appendEscapedBuffer [] v)"
  unfolding appendEscapedBuffer_def
  by (subst appendEscapedLoop_append) (simp add: leadingMinus_def)

lemma literal_no_leading_minus:
  assumes "appendEscapedValue [] v = Inr s" and "Int64Value v = None"
    and "\<forall>t. v \<noteq> VFloat64 t \<and> v \<noteq> VFloat32 t"
  shows "\<not> leadingMinus s"
proof (cases "isNilValue v")
  case True
  with assms(1) show ?thesis by (auto simp: appendEscapedValue_def leadingMinus_def)
next
  case False
  show ?thesis
  proof (cases "Uint64Value v")
    case (Some u)
    with False assms(1) show ?thesis
      by (auto simp: appendEscapedValue_def AppendUint_def formatUint_no_minus)
  next
    case None
    with False assms show ?thesis
      by (cases v)
         (auto simp: appendEscapedValue_def appendEscapedString_no_minus
            appendEscapedBuffer_no_minus leadingMinus_Cons split: if_splits)
  qed
qed

section \<open>Facts about the projection\<close>

text \<open>
  The two nested loops of \<^verbatim>\<open>loadColumnsAndValuesInIntersection\<close> compute the projection
  of the specification, and the loop over the row images either reduces every image or
  stops at the first image of the wrong length.
\<close>

lemma nameInIntersection_iff:
  "nameInIntersection col targetCols \<longleftrightarrow> Column.Name col \<in> set (map Column.Name targetCols)"
  by (induction targetCols) auto

lemma intersectLoop_eq:
  "intersectLoop k cols tcs ic qn =
     (ic @ map fst (filter (\<lambda>(i, c). nameInIntersection c tcs) (enumerate k cols)),
      qn @ map (\<lambda>(i, c). quoteField (Column.Name c))
             (filter (\<lambda>(i, c). nameInIntersection c tcs) (enumerate k cols)))"
  by (induction cols arbitrary: k ic qn) simp_all

lemma enumerate_0_upt: "enumerate 0 xs = map (\<lambda>i. (i, xs ! i)) [0..<length xs]"
  by (rule nth_equalityI) (simp_all add: nth_enumerate_eq)

lemma intersectLoop_matched:
  "intersectLoop 0 (Columns table) (Columns intersection) [] [] =
     (map fst (matched table intersection), map snd (matched table intersection))"
  by (simp add: intersectLoop_eq enumerate_0_upt matched_def filter_map comp_def
      nameInIntersection_iff)

lemma matched_index: "(i, name) \<in> set (matched table intersection) \<Longrightarrow> i < length (Columns table)"
  by (auto simp: matched_def)

lemma intersectValuesLoop_ok:
  "\<forall>values\<in>set rest. length values = length (Columns table) \<Longrightarrow>
   intersectValuesLoop table ic rest acc =
     (acc @ map (\<lambda>values. map (\<lambda>colIdx. values ! colIdx) ic) rest, None)"
  by (induction rest arbitrary: acc) (simp_all add: verifyValuesHasTheSameLengthAsColumns_def)

lemma intersectValuesLoop_mismatch:
  "\<exists>values\<in>set rest. length values \<noteq> length (Columns table) \<Longrightarrow>
   \<exists>n. n \<noteq> length (Columns table) \<and>
       intersectValuesLoop table ic rest acc =
         ([], Some (ColumnCountMismatch (Schema table) (Table.Name table) (length (Columns table)) n))"
proof (induction rest arbitrary: acc)
  case Nil
  then show ?case by simp
next
  case (Cons v vs)
  show ?case
  proof (cases "length v = length (Columns table)")
    case True
    with Cons.prems have "\<exists>values\<in>set vs. length values \<noteq> length (Columns table)" by auto
    from Cons.IH [OF this] show ?thesis
      using True by (simp add: verifyValuesHasTheSameLengthAsColumns_def)
  next
    case False
    then show ?thesis
      by (auto simp: verifyValuesHasTheSameLengthAsColumns_def)
  qed
qed

lemma loadColumnsAndValuesInIntersection_ok:
  assumes "Columns table \<noteq> []" and "Columns intersection \<noteq> []"
    and "\<forall>values\<in>set images. length values = length (Columns table)"
  shows "loadColumnsAndValuesInIntersection table intersection images =
     Inr ((map snd (matched table intersection),
           map (\<lambda>values. map (\<lambda>(i, name). values ! i) (matched table intersection)) images), None)"
  using assms(1,2)
  by (simp add: loadColumnsAndValuesInIntersection_def intersectLoop_matched
      intersectValuesLoop_ok [OF assms(3)] comp_def split_beta)

lemma loadColumnsAndValuesInIntersection_mismatch:
  assumes "Columns table \<noteq> []" and "Columns intersection \<noteq> []"
    and "\<exists>values\<in>set images. length values \<noteq> length (Columns table)"
  shows "\<exists>n. n \<noteq> length (Columns table) \<and>
           loadColumnsAndValuesInIntersection table intersection images =
             Inr (([], []), Some (ColumnCountMismatch (Schema table) (Table.Name table)
                                    (length (Columns table)) n))"
proof -
  obtain ic qn where i: "intersectLoop 0 (Columns table) (Columns intersection) [] [] = (ic, qn)"
    by (cases "intersectLoop 0 (Columns table) (Columns intersection) [] []")
  from intersectValuesLoop_mismatch [OF assms(3), of ic "[]"]
  obtain n where "n \<noteq> length (Columns table)"
    "intersectValuesLoop table ic images [] =
       ([], Some (ColumnCountMismatch (Schema table) (Table.Name table) (length (Columns table)) n))"
    by blast
  with assms(1,2) i show ?thesis
    by (simp add: loadColumnsAndValuesInIntersection_def)
qed

lemma intersectValuesLoop_map:
  assumes "\<forall>colIdx\<in>set ic. colIdx < length (Columns table)"
  shows "intersectValuesLoop table ic (map (map f) rest) (map (map f) acc) =
     (map (map f) (fst (intersectValuesLoop table ic rest acc)),
      snd (intersectValuesLoop table ic rest acc))"
proof (induction rest arbitrary: acc)
  case Nil
  show ?case by simp
next
  case (Cons v vs)
  show ?case
  proof (cases "length v = length (Columns table)")
    case True
    with assms have m: "map (\<lambda>colIdx. map f v ! colIdx) ic = map f (map (\<lambda>colIdx. v ! colIdx) ic)"
      by simp
    have "intersectValuesLoop table ic (map (map f) (v # vs)) (map (map f) acc) =
        intersectValuesLoop table ic (map (map f) vs)
          (map (map f) (acc @ [map (\<lambda>colIdx. v ! colIdx) ic]))"
      using True by (simp add: verifyValuesHasTheSameLengthAsColumns_def m del: map_map)
    also have "\<dots> =
        (map (map f) (fst (intersectValuesLoop table ic vs (acc @ [map (\<lambda>colIdx. v ! colIdx) ic]))),
         snd (intersectValuesLoop table ic vs (acc @ [map (\<lambda>colIdx. v ! colIdx) ic])))"
      by (rule Cons.IH)
    also have "\<dots> =
        (map (map f) (fst (intersectValuesLoop table ic (v # vs) acc)),
         snd (intersectValuesLoop table ic (v # vs) acc))"
      using True by (simp add: verifyValuesHasTheSameLengthAsColumns_def)
    finally show ?thesis .
  next
    case False
    then show ?thesis by (simp add: verifyValuesHasTheSameLengthAsColumns_def)
  qed
qed

lemma loadColumnsAndValuesInIntersection_map:
  "loadColumnsAndValuesInIntersection table intersection (map (map f) images) =
     (case loadColumnsAndValuesInIntersection table intersection images of
        Inl p \<Rightarrow> Inl p
      | Inr ((columns, values), err) \<Rightarrow> Inr ((columns, map (map f) values), err))"
proof -
  have b: "\<forall>colIdx\<in>set (map fst (matched table intersection)). colIdx < length (Columns table)"
    by (auto simp: matched_def)
  show ?thesis
    using intersectValuesLoop_map [OF b, of f images "[]"]
    by (auto simp: loadColumnsAndValuesInIntersection_def intersectLoop_matched
        split: prod.splits option.splits)
qed

lemma AsSQLString_error_alone:
  "AsSQLString e intersection h = Inr (sql, Some err) \<Longrightarrow> sql = []"
  by (cases e) (auto split: sum.splits prod.splits option.splits)

section \<open>Facts about the constructors\<close>

text \<open>
  The insert and delete constructors fill every entry of their result. The update
  constructor fills entry \<open>k\<close> from the rows \<open>2k\<close> and \<open>2k + 1\<close> when the number of
  rows is even, and panics on the read of \<^verbatim>\<open>rowsEvent.Rows[i+1]\<close> at the last row when it
  is odd.
\<close>

lemma insertLoop_eq:
  "i + length rest = length out \<Longrightarrow>
   insertLoop table i rest out = Inr (take i out @ map (\<lambda>row. Some (BinlogInsertEvent row table)) rest)"
proof (induction rest arbitrary: i out)
  case Nil
  then show ?case by simp
next
  case (Cons row rest)
  then have i: "i < length out" by simp
  let ?out = "out[i := Some (BinlogInsertEvent row table)]"
  have "Suc i + length rest = length ?out" using Cons.prems by simp
  from Cons.IH [OF this] i show ?case
    by (simp add: take_Suc_conv_app_nth)
qed

lemma deleteLoop_eq:
  "i + length rest = length out \<Longrightarrow>
   deleteLoop table i rest out = Inr (take i out @ map (\<lambda>row. Some (BinlogDeleteEvent row table)) rest)"
proof (induction rest arbitrary: i out)
  case Nil
  then show ?case by simp
next
  case (Cons row rest)
  then have i: "i < length out" by simp
  let ?out = "out[i := Some (BinlogDeleteEvent row table)]"
  have "Suc i + length rest = length ?out" using Cons.prems by simp
  from Cons.IH [OF this] i show ?case
    by (simp add: take_Suc_conv_app_nth)
qed

lemma NewBinlogInsertEvents_eq:
  "NewBinlogInsertEvents table rowsEvent =
     Inr (map (\<lambda>row. Some (BinlogInsertEvent row table)) (Rows rowsEvent), None)"
  by (simp add: NewBinlogInsertEvents_def insertLoop_eq)

lemma NewBinlogDeleteEvents_eq:
  "NewBinlogDeleteEvents table rowsEvent =
     Inr (map (\<lambda>row. Some (BinlogDeleteEvent row table)) (Rows rowsEvent), None)"
  by (simp add: NewBinlogDeleteEvents_def deleteLoop_eq)

lemma updateLoop_even:
  assumes "even (length rows)" and "length out = length rows div 2"
    and "rest = drop i rows" and "i \<le> length rows"
  shows "\<exists>out'. updateLoop table rows i rest out = Inr out' \<and> length out' = length out \<and>
           (\<forall>k<length out. out' ! k =
              (if i \<le> 2 * k then Some (BinlogUpdateEvent (rows ! (2 * k)) (rows ! (2 * k + 1)) table)
               else out ! k))"
  using assms
proof (induction rest arbitrary: i out)
  case Nil
  then have "i = length rows" by simp
  with Nil show ?case by auto
next
  case (Cons row rest)
  from Cons.prems(3) have i: "i < length rows"
    by (metis drop_all leI list.distinct(1))
  with Cons.prems(3) have row: "row = rows ! i" and rest: "rest = drop (Suc i) rows"
    by (simp_all add: Cons_nth_drop_Suc [symmetric])
  show ?case
  proof (cases "i mod 2 = 1")
    case True
    from Cons.IH [OF Cons.prems(1,2) rest] i
    obtain out' where o: "updateLoop table rows (Suc i) rest out = Inr out'"
      "length out' = length out"
      "\<forall>k<length out. out' ! k =
          (if Suc i \<le> 2 * k then Some (BinlogUpdateEvent (rows ! (2 * k)) (rows ! (2 * k + 1)) table)
           else out ! k)"
      by auto
    have "\<And>k. (Suc i \<le> 2 * k) = (i \<le> 2 * k)" using True by presburger
    with o True show ?thesis by simp
  next
    case False
    then have ev: "even i" by presburger
    with i Cons.prems(1) have si: "Suc i < length rows"
      by (metis Suc_lessI even_Suc)
    then have d: "i div 2 < length out" using Cons.prems(2) ev by (auto elim!: evenE)
    let ?out = "out[i div 2 := Some (BinlogUpdateEvent row (rows ! Suc i) table)]"
    have len: "length ?out = length rows div 2" using Cons.prems(2) by simp
    from Cons.IH [OF Cons.prems(1) len rest] si
    obtain out' where o: "updateLoop table rows (Suc i) rest ?out = Inr out'"
      "length out' = length ?out"
      "\<forall>k<length ?out. out' ! k =
          (if Suc i \<le> 2 * k then Some (BinlogUpdateEvent (rows ! (2 * k)) (rows ! (2 * k + 1)) table)
           else ?out ! k)"
      by auto
    have "\<forall>k<length out. out' ! k =
              (if i \<le> 2 * k then Some (BinlogUpdateEvent (rows ! (2 * k)) (rows ! (2 * k + 1)) table)
               else out ! k)"
    proof (intro allI impI)
      fix k assume k: "k < length out"
      consider "2 * k = i" | "i < 2 * k" | "2 * k < i" by linarith
      then show "out' ! k =
              (if i \<le> 2 * k then Some (BinlogUpdateEvent (rows ! (2 * k)) (rows ! (2 * k + 1)) table)
               else out ! k)"
      proof cases
        case 1
        then have "k = i div 2" by auto
        with o(3) k 1 row show ?thesis by auto
      next
        case 2
        with o(3) k show ?thesis by auto
      next
        case 3
        then have "k \<noteq> i div 2" using ev by (auto elim!: evenE)
        with o(3) k 3 show ?thesis by auto
      qed
    qed
    with o(1,2) False si d show ?thesis by (simp add: at_def)
  qed
qed

lemma updateLoop_odd:
  assumes "odd (length rows)" and "length out = length rows div 2"
    and "rest = drop i rows" and "i < length rows"
  shows "updateLoop table rows i rest out = Inl (IndexOutOfRange (length rows) (length rows))"
  using assms
proof (induction rest arbitrary: i out)
  case Nil
  then show ?case by simp
next
  case (Cons row rest)
  from Cons.prems(3,4) have rest: "rest = drop (Suc i) rows"
    by (metis Cons_nth_drop_Suc list.inject)
  show ?case
  proof (cases "i mod 2 = 1")
    case True
    then have "odd i" by presburger
    with Cons.prems(1,4) have si: "Suc i < length rows"
      by (metis Suc_lessI even_Suc)
    from Cons.IH [OF Cons.prems(1,2) rest si] True show ?thesis by simp
  next
    case False
    then have ev: "even i" by presburger
    show ?thesis
    proof (cases "Suc i < length rows")
      case True
      then have d: "i div 2 < length out" using Cons.prems(1,2) ev
        by (auto elim!: evenE oddE)
      let ?out = "out[i div 2 := Some (BinlogUpdateEvent row (rows ! Suc i) table)]"
      have len: "length ?out = length rows div 2" using Cons.prems(2) by simp
      from Cons.IH [OF Cons.prems(1) len rest True] False True d show ?thesis
        by (simp add: at_def)
    next
      case False
      with Cons.prems(4) have "Suc i = length rows" by simp
      with \<open>i mod 2 \<noteq> 1\<close> show ?thesis by (simp add: at_def)
    qed
  qed
qed

lemma NewBinlogUpdateEvents_even:
  assumes "even (length (Rows rowsEvent))"
  shows "\<exists>updateEvents. NewBinlogUpdateEvents table rowsEvent = Inr (updateEvents, None) \<and>
           length updateEvents = length (Rows rowsEvent) div 2 \<and>
           (\<forall>k<length (Rows rowsEvent) div 2. updateEvents ! k =
              Some (BinlogUpdateEvent (Rows rowsEvent ! (2 * k)) (Rows rowsEvent ! (2 * k + 1)) table))"
proof -
  let ?rows = "Rows rowsEvent"
  from updateLoop_even [OF assms, of "replicate (length ?rows div 2) None" ?rows 0 table]
  obtain out' where "updateLoop table ?rows 0 ?rows (replicate (length ?rows div 2) None) = Inr out'"
    "length out' = length ?rows div 2"
    "\<forall>k<length ?rows div 2. out' ! k =
        Some (BinlogUpdateEvent (?rows ! (2 * k)) (?rows ! (2 * k + 1)) table)"
    by auto
  then show ?thesis by (simp add: NewBinlogUpdateEvents_def)
qed

lemma NewBinlogUpdateEvents_odd:
  assumes "odd (length (Rows rowsEvent))"
  shows "NewBinlogUpdateEvents table rowsEvent =
           Inl (IndexOutOfRange (length (Rows rowsEvent)) (length (Rows rowsEvent)))"
proof -
  let ?rows = "Rows rowsEvent"
  from assms have "0 < length ?rows" by (cases ?rows) auto
  from updateLoop_odd [OF assms _ _ this, of "replicate (length ?rows div 2) None" ?rows table]
  show ?thesis by (simp add: NewBinlogUpdateEvents_def)
qed

section \<open>Facts about the dispatch entry point\<close>

text \<open>
  Rewriting a row touches exactly the cells of the unsigned columns and is idempotent, so
  a row that the event lists twice ends as a row listed once does. A call that returns
  without error has rewritten every row of the event and no other part of the store.
\<close>

lemma toUnsigned_idem: "toUnsigned (toUnsigned v) = toUnsigned v"
  by (cases v) (simp_all add: toUnsigned_def)

lemma Int64Value_toUnsigned: "Int64Value (toUnsigned v) = None"
  by (cases v) (simp_all add: toUnsigned_def Int64Value_def)

lemma toUnsigned_float:
  "(\<forall>t. v \<noteq> VFloat64 t \<and> v \<noteq> VFloat32 t) \<Longrightarrow>
   (\<forall>t. toUnsigned v \<noteq> VFloat64 t \<and> toUnsigned v \<noteq> VFloat32 t)"
  by (cases v) (simp_all add: toUnsigned_def)

lemma normalizeColumnsLoop_length: "length (normalizeColumnsLoop i cols row) = length row"
  by (induction cols arbitrary: i row) simp_all

lemma normalizeColumnsLoop_nth:
  "j < length row \<Longrightarrow>
   normalizeColumnsLoop i cols row ! j =
     (if i \<le> j \<and> j < i + length cols \<and> IsUnsigned (cols ! (j - i))
      then toUnsigned (row ! j) else row ! j)"
proof (induction cols arbitrary: i row)
  case Nil
  then show ?case by auto
next
  case (Cons col cols)
  let ?row = "if IsUnsigned col then row[i := toUnsigned (row ! i)] else row"
  have len: "j < length ?row" using Cons.prems by simp
  consider "j = i" | "i < j" | "j < i" by linarith
  then show ?case
  proof cases
    case 1
    with Cons.IH [OF len, of "Suc i"] Cons.prems show ?thesis by simp
  next
    case 2
    then have "(col # cols) ! (j - i) = cols ! (j - Suc i)"
      by (metis Suc_diff_Suc nth_Cons_Suc)
    with Cons.IH [OF len, of "Suc i"] 2 show ?thesis by auto
  next
    case 3
    with Cons.IH [OF len, of "Suc i"] show ?thesis by auto
  qed
qed

lemma normalizeColumnsLoop_idem:
  "normalizeColumnsLoop 0 cols (normalizeColumnsLoop 0 cols row) = normalizeColumnsLoop 0 cols row"
  by (rule nth_equalityI)
     (simp_all add: normalizeColumnsLoop_length normalizeColumnsLoop_nth toUnsigned_idem)

lemma normalizeRowsLoop_ok:
  "normalizeRowsLoop table rows h = (h', None) \<Longrightarrow>
   (\<forall>r\<in>set rows. length (h r) = length (Columns table)) \<and>
   h' = (\<lambda>r. if r \<in> set rows then normalizeColumnsLoop 0 (Columns table) (h r) else h r)"
proof (induction rows arbitrary: h)
  case Nil
  then show ?case by simp
next
  case (Cons row rows)
  let ?h = "h(row := normalizeColumnsLoop 0 (Columns table) (h row))"
  from Cons.prems have len: "length (h row) = length (Columns table)"
    and rec: "normalizeRowsLoop table rows ?h = (h', None)"
    by (simp_all split: if_splits)
  from Cons.IH [OF rec]
  have l: "\<forall>r\<in>set rows. length (?h r) = length (Columns table)"
    and h': "h' = (\<lambda>r. if r \<in> set rows then normalizeColumnsLoop 0 (Columns table) (?h r) else ?h r)"
    by simp_all
  from l len have "\<forall>r\<in>set (row # rows). length (h r) = length (Columns table)"
    by (auto simp: normalizeColumnsLoop_length split: if_splits)
  moreover have "h' = (\<lambda>r. if r \<in> set (row # rows)
      then normalizeColumnsLoop 0 (Columns table) (h r) else h r)"
    unfolding h' by (rule ext) (simp add: normalizeColumnsLoop_idem)
  ultimately show ?case by blast
qed

lemma normalizeRowsLoop_frame:
  "r \<notin> set rows \<Longrightarrow> fst (normalizeRowsLoop table rows h) r = h r"
  by (induction rows arbitrary: h) auto

lemma normalizeRowsLoop_error:
  "normalizeRowsLoop table rows h = (h', Some err) \<Longrightarrow>
   \<exists>n. n \<noteq> length (Columns table) \<and>
       err = ColumnCountMismatch (Schema table) (Table.Name table) (length (Columns table)) n"
  by (induction rows arbitrary: h) (auto split: if_splits)

lemma normalizeRowsLoop_mismatch:
  "\<exists>r\<in>set rows. length (h r) \<noteq> length (Columns table) \<Longrightarrow>
   \<exists>h' err. normalizeRowsLoop table rows h = (h', Some err)"
proof (induction rows arbitrary: h)
  case Nil
  then show ?case by simp
next
  case (Cons row rows)
  show ?case
  proof (cases "length (h row) = length (Columns table)")
    case True
    let ?h = "h(row := normalizeColumnsLoop 0 (Columns table) (h row))"
    from Cons.prems True have "\<exists>r\<in>set rows. length (?h r) \<noteq> length (Columns table)"
      by (auto simp: normalizeColumnsLoop_length)
    from Cons.IH [OF this]
    obtain h' err where "normalizeRowsLoop table rows ?h = (h', Some err)" by blast
    with True show ?thesis by simp
  next
    case False
    then show ?thesis by simp
  qed
qed

lemma normalizeRowsLoop_widths_ok:
  "\<forall>r\<in>set rows. length (h r) = length (Columns table) \<Longrightarrow>
   snd (normalizeRowsLoop table rows h) = None"
proof (induction rows arbitrary: h)
  case Nil
  then show ?case by simp
next
  case (Cons row rows)
  let ?h = "h(row := normalizeColumnsLoop 0 (Columns table) (h row))"
  from Cons.prems have "\<forall>r\<in>set rows. length (?h r) = length (Columns table)"
    by (simp add: normalizeColumnsLoop_length)
  then have rec: "snd (normalizeRowsLoop table rows ?h) = None" by (rule Cons.IH)
  have step: "normalizeRowsLoop table (row # rows) h = normalizeRowsLoop table rows ?h"
    using Cons.prems by simp
  show ?case unfolding step by (rule rec)
qed

lemma NewBinlogDMLEvents_success:
  assumes "Event ev = IsRowsEvent rowsEvent"
    and "NewBinlogDMLEvents table ev h = (h', Inr (events, None))"
  shows "normalizeRowsLoop table (Rows rowsEvent) h = (h', None)"
  using assms by (auto simp: NewBinlogDMLEvents_def split: prod.splits option.splits)

lemma NewBinlogDMLEvents_mismatch:
  assumes "Event ev = IsRowsEvent rowsEvent"
    and "\<exists>r\<in>set (Rows rowsEvent). length (h r) \<noteq> length (Columns table)"
  shows "\<exists>h' n. n \<noteq> length (Columns table) \<and>
           NewBinlogDMLEvents table ev h =
             (h', Inr ([], Some (ColumnCountMismatch (Schema table) (Table.Name table)
                                   (length (Columns table)) n)))"
proof -
  from normalizeRowsLoop_mismatch [OF assms(2)]
  obtain h' err where n: "normalizeRowsLoop table (Rows rowsEvent) h = (h', Some err)" by blast
  from normalizeRowsLoop_error [OF n] obtain n where "n \<noteq> length (Columns table)"
    "err = ColumnCountMismatch (Schema table) (Table.Name table) (length (Columns table)) n"
    by blast
  with n assms(1) show ?thesis by (simp add: NewBinlogDMLEvents_def)
qed

lemma NewBinlogDMLEvents_error_alone:
  assumes "NewBinlogDMLEvents table ev h = (h', Inr (events, Some err))"
  shows "events = []"
proof (cases "Event ev")
  case NotRowsEvent
  with assms show ?thesis by (simp add: NewBinlogDMLEvents_def)
next
  case (IsRowsEvent rowsEvent)
  show ?thesis
  proof (cases "normalizeRowsLoop table (Rows rowsEvent) h")
    case (Pair h1 eo)
    show ?thesis
    proof (cases eo)
      case (Some e)
      with assms IsRowsEvent Pair show ?thesis by (simp add: NewBinlogDMLEvents_def)
    next
      case None
      have u: "\<And>r. NewBinlogUpdateEvents table rowsEvent = Inr (r, Some err) \<Longrightarrow> False"
        by (simp add: NewBinlogUpdateEvents_def split: sum.splits)
      from assms IsRowsEvent Pair None show ?thesis
        by (cases "EventType (Header ev)")
           (auto simp: NewBinlogDMLEvents_def NewBinlogInsertEvents_eq NewBinlogDeleteEvents_eq
              dest: u)
    qed
  qed
qed

lemma NewBinlogDMLEvents_update:
  assumes "Event ev = IsRowsEvent rowsEvent"
    and "EventType (Header ev) = UPDATE_ROWS_EVENTv1 \<or> EventType (Header ev) = UPDATE_ROWS_EVENTv2"
    and "\<forall>r\<in>set (Rows rowsEvent). length (h r) = length (Columns table)"
  shows "snd (NewBinlogDMLEvents table ev h) = NewBinlogUpdateEvents table rowsEvent"
  using assms(1,2) normalizeRowsLoop_widths_ok [OF assms(3)]
  by (auto simp: NewBinlogDMLEvents_def split: prod.splits option.splits)

lemma dispatch_events_refs:
  assumes "Event ev = IsRowsEvent rowsEvent"
    and "NewBinlogDMLEvents table ev h = (h', Inr (events, None))"
    and "Some e \<in> set events"
    and "OldValues e = Some x \<or> NewValues e = Some x"
  shows "x \<in> set (Rows rowsEvent)"
proof -
  let ?rows = "Rows rowsEvent"
  from NewBinlogDMLEvents_success [OF assms(1,2)]
  have n: "normalizeRowsLoop table ?rows h = (h', None)" .
  have upd: "x \<in> set ?rows" if "NewBinlogUpdateEvents table rowsEvent = Inr (events, None)"
  proof (cases "even (length ?rows)")
    case True
    from NewBinlogUpdateEvents_even [OF True, of table] that
    have len: "length events = length ?rows div 2"
      and nth: "\<forall>k<length ?rows div 2. events ! k =
          Some (BinlogUpdateEvent (?rows ! (2 * k)) (?rows ! (2 * k + 1)) table)"
      by auto
    from assms(3) obtain k where k: "k < length events" "events ! k = Some e"
      by (auto simp: in_set_conv_nth)
    with len nth have e: "e = BinlogUpdateEvent (?rows ! (2 * k)) (?rows ! (2 * k + 1)) table"
      by auto
    from k(1) len True have "2 * k < length ?rows" "2 * k + 1 < length ?rows"
      by (auto elim!: evenE)
    with e assms(4) show ?thesis by auto
  next
    case False
    from NewBinlogUpdateEvents_odd [OF False, of table] that show ?thesis by simp
  qed
  from assms(1,2) n assms(3,4) show ?thesis
    by (cases "EventType (Header ev)")
       (auto simp: NewBinlogDMLEvents_def NewBinlogInsertEvents_eq NewBinlogDeleteEvents_eq
          dest: upd)
qed

lemma unsigned_cell_after_dispatch:
  assumes "Event ev = IsRowsEvent rowsEvent"
    and "NewBinlogDMLEvents table ev h = (h', Inr (events, None))"
    and "r \<in> set (Rows rowsEvent)" and "i < length (Columns table)"
    and "IsUnsigned (Columns table ! i)"
  shows "h' r ! i = toUnsigned (h r ! i)"
proof -
  from NewBinlogDMLEvents_success [OF assms(1,2)]
  have n: "normalizeRowsLoop table (Rows rowsEvent) h = (h', None)" .
  from normalizeRowsLoop_ok [OF n] assms(3)
  have len: "length (h r) = length (Columns table)"
    and h': "h' r = normalizeColumnsLoop 0 (Columns table) (h r)"
    by simp_all
  from len assms(4,5) show ?thesis
    by (simp add: h' normalizeColumnsLoop_nth)
qed

section \<open>Unfolding the definitions on concrete inputs\<close>

lemmas example_defs = emptyHeap_def column_def tableST_def rowsBinlogEvent_def

lemmas render_defs =
  loadColumnsAndValuesInIntersection_def verifyValuesHasTheSameLengthAsColumns_def at_def
  buildStringListForValues_def buildStringMapForSet_def buildStringMapForWhere_def
  appendEscapedValue_def isNilValue_def Uint64Value_def Int64Value_def AppendUint_def AppendInt_def
  appendEscapedString_def appendEscapedBuffer_def
  QuotedTableNameFromString_def quoteField_def formatUint.simps digitChar_def

lemmas dispatch_defs =
  NewBinlogDMLEvents_def NewBinlogInsertEvents_def NewBinlogUpdateEvents_def
  NewBinlogDeleteEvents_def toUnsigned_def at_def

section \<open>Primary key of a statement whose key cell is unsigned\<close>

lemma GetUint64_unsigned_cell:
  "colIdx < length r \<Longrightarrow> Uint64Value (r ! colIdx) = Some v \<Longrightarrow> GetUint64 r colIdx = Inl ReflectValueInt"
  by (cases "r ! colIdx") (simp_all add: GetUint64_def at_def Uint64Value_def reflectInt_def)

text \<open>
  C1. The claim is that the primary key operation returns the value of a key cell that is
  already an unsigned integer, widened to 64 bits and without error. The code does not:
  \<^verbatim>\<open>GetUint64\<close> sends every cell that is no byte slice to \<^verbatim>\<open>reflect.Value.Int\<close>, which
  panics on the unsigned kinds. The dispatch entry point itself produces such cells: for a
  table whose key column \<open>id\<close> is unsigned it turns the cell \<^verbatim>\<open>int64(5)\<close> of an insert
  event into \<^verbatim>\<open>uint64(5)\<close>, and the primary key of the statement it returns panics.
\<close>

theorem PK_panics_on_unsigned_cell:
  "NewBinlogDMLEvents (tableST [column ''id'' True]) (rowsBinlogEvent WRITE_ROWS_EVENTv2 [0])
     (emptyHeap(0 := [VInt64 5]))
     = (emptyHeap(0 := [VUint64 5]),
        Inr ([Some (BinlogInsertEvent 0 (tableST [column ''id'' True]))], None)) \<and>
   PK (BinlogInsertEvent 0 (tableST [column ''id'' True])) (emptyHeap(0 := [VUint64 5]))
     = Inl ReflectValueInt"
  by (simp add: example_defs dispatch_defs pkFromEventData_def
      verifyValuesHasTheSameLengthAsColumns_def GetUint64_def reflectInt_def)

section \<open>Rendering an UPDATE statement\<close>

lemma map_zip_matched:
  "map (\<lambda>(c, v). g c v) (zip (map snd m) (map (\<lambda>(i, name). f i) m)) =
   map (\<lambda>(i, name). g name (f i)) m"
  by (induction m) auto

lemma update_form:
  assumes "Columns table \<noteq> []" and "Columns intersection \<noteq> []"
    and "length (h oldValues) = length (Columns table)"
    and "length (h newValues) = length (Columns table)"
    and "\<forall>(i, name)\<in>set (matched table intersection).
           h oldValues ! i \<noteq> VOther \<and> h newValues ! i \<noteq> VOther"
  shows "AsSQLString (BinlogUpdateEvent oldValues newValues table) intersection h =
     Inr (''UPDATE '' @ QuotedTableNameFromString (Schema intersection) (Table.Name intersection) @
          '' SET '' @
          Join (map (\<lambda>(i, name). name @ ''='' @ literalText (h newValues ! i))
                  (matched table intersection)) '','' @
          '' WHERE '' @
          Join (map (\<lambda>(i, name).
                       if isNilValue (h oldValues ! i) then name @ '' IS NULL''
                       else name @ ''='' @ literalText (h oldValues ! i))
                  (matched table intersection)) '' AND '', None)"
proof -
  let ?m = "matched table intersection"
  let ?old = "map (\<lambda>(i, name). h oldValues ! i) ?m"
  let ?new = "map (\<lambda>(i, name). h newValues ! i) ?m"
  have load: "loadColumnsAndValuesInIntersection table intersection [h oldValues, h newValues] =
      Inr ((map snd ?m, [?old, ?new]), None)"
    using loadColumnsAndValuesInIntersection_ok [OF assms(1,2), of "[h oldValues, h newValues]"]
      assms(3,4) by simp
  have so: "VOther \<notin> set ?old" and sn: "VOther \<notin> set ?new"
    using assms(5) by (auto simp: split_beta)
  have setl: "buildStringMapForSet (map snd ?m) ?new =
      Inr (Join (map (\<lambda>(i, name). name @ ''='' @ literalText (h newValues ! i)) ?m) '','')"
    using buildStringMapForSet_supported [OF sn, of "map snd ?m"]
    by (simp add: map_zip_matched setFragment_def)
  have wherel: "buildStringMapForWhere (map snd ?m) ?old =
      Inr (Join (map (\<lambda>(i, name).
                       if isNilValue (h oldValues ! i) then name @ '' IS NULL''
                       else name @ ''='' @ literalText (h oldValues ! i)) ?m) '' AND '')"
    using buildStringMapForWhere_supported [OF so, of "map snd ?m"]
    by (simp add: map_zip_matched whereFragment_def)
  show ?thesis
    by (simp add: load at_def setl wherel)
qed

text \<open>
  C2. An update statement is rendered exactly when both row images have the table's width,
  neither column list is empty and no projected cell is of an unsupported type. Its SET
  list then joins, for every projected column, the quoted name, an equals sign and the
  literal of the cell of the new image; its WHERE list joins, for every projected column,
  the fragment built from the cell of the old image, which is the quoted name followed by
  \<open>IS NULL\<close> when that cell is NULL and the quoted name, an equals sign and the literal
  otherwise. For the columns \<open>id\<close> and \<open>name\<close>, the old row \<open>(1, NULL)\<close> and the new
  row \<open>(1, "a")\<close> the rendered statement is the one the specification gives.
\<close>

theorem update_statement_rendering:
  "(Columns table \<noteq> [] \<and> Columns intersection \<noteq> [] \<and>
    length (h oldValues) = length (Columns table) \<and>
    length (h newValues) = length (Columns table) \<and>
    (\<forall>(i, name)\<in>set (matched table intersection).
        h oldValues ! i \<noteq> VOther \<and> h newValues ! i \<noteq> VOther) \<longrightarrow>
    AsSQLString (BinlogUpdateEvent oldValues newValues table) intersection h =
      Inr (''UPDATE '' @ QuotedTableNameFromString (Schema intersection) (Table.Name intersection) @
           '' SET '' @
           Join (map (\<lambda>(i, name). name @ ''='' @ literalText (h newValues ! i))
                   (matched table intersection)) '','' @
           '' WHERE '' @
           Join (map (\<lambda>(i, name).
                        if isNilValue (h oldValues ! i) then name @ '' IS NULL''
                        else name @ ''='' @ literalText (h oldValues ! i))
                   (matched table intersection)) '' AND '', None)) \<and>
   AsSQLString
     (BinlogUpdateEvent 0 1 (tableST [column ''id'' False, column ''name'' False]))
     (tableST [column ''id'' False, column ''name'' False])
     (emptyHeap(0 := [VInt64 1, VNil], 1 := [VInt64 1, VString ''a'']))
   = Inr (''UPDATE `s`.`t` SET `id`=1,`name`='' @ [CHR 0x27] @ ''a'' @ [CHR 0x27] @
          '' WHERE `id`=1 AND `name` IS NULL'', None)"
proof (intro conjI impI)
  assume "Columns table \<noteq> [] \<and> Columns intersection \<noteq> [] \<and>
    length (h oldValues) = length (Columns table) \<and>
    length (h newValues) = length (Columns table) \<and>
    (\<forall>(i, name)\<in>set (matched table intersection).
        h oldValues ! i \<noteq> VOther \<and> h newValues ! i \<noteq> VOther)"
  then show "AsSQLString (BinlogUpdateEvent oldValues newValues table) intersection h =
      Inr (''UPDATE '' @ QuotedTableNameFromString (Schema intersection) (Table.Name intersection) @
           '' SET '' @
           Join (map (\<lambda>(i, name). name @ ''='' @ literalText (h newValues ! i))
                   (matched table intersection)) '','' @
           '' WHERE '' @
           Join (map (\<lambda>(i, name).
                        if isNilValue (h oldValues ! i) then name @ '' IS NULL''
                        else name @ ''='' @ literalText (h oldValues ! i))
                   (matched table intersection)) '' AND '', None)"
    using update_form [of table intersection h oldValues newValues] by blast
next
  show "AsSQLString
     (BinlogUpdateEvent 0 1 (tableST [column ''id'' False, column ''name'' False]))
     (tableST [column ''id'' False, column ''name'' False])
     (emptyHeap(0 := [VInt64 1, VNil], 1 := [VInt64 1, VString ''a'']))
   = Inr (''UPDATE `s`.`t` SET `id`=1,`name`='' @ [CHR 0x27] @ ''a'' @ [CHR 0x27] @
          '' WHERE `id`=1 AND `name` IS NULL'', None)"
    by (simp add: example_defs render_defs)
qed

lemma matched_id_name:
  "matched (tableST [column ''id'' False, column ''name'' False])
           (tableST [column ''id'' False, column ''name'' False]) = [(0, ''`id`''), (1, ''`name`'')]"
  by (simp add: matched_def example_defs quoteField_def upt_rec)

theorem update_statement_rendering_witness:
  "Columns (tableST [column ''id'' False, column ''name'' False]) \<noteq> [] \<and>
   length ((emptyHeap(0 := [VInt64 1, VNil], 1 := [VInt64 1, VString ''a''])) 0) =
     length (Columns (tableST [column ''id'' False, column ''name'' False])) \<and>
   length ((emptyHeap(0 := [VInt64 1, VNil], 1 := [VInt64 1, VString ''a''])) 1) =
     length (Columns (tableST [column ''id'' False, column ''name'' False])) \<and>
   AsSQLString
     (BinlogUpdateEvent 0 1 (tableST [column ''id'' False, column ''name'' False]))
     (tableST [column ''id'' False, column ''name'' False])
     (emptyHeap(0 := [VInt64 1, VNil], 1 := [VInt64 1, VString ''a'']))
   = Inr (''UPDATE '' @ QuotedTableNameFromString ''s'' ''t'' @
          '' SET '' @ Join [''`id`='' @ literalText (VInt64 1),
                            ''`name`='' @ literalText (VString ''a'')] '','' @
          '' WHERE '' @ Join [''`id`='' @ literalText (VInt64 1), ''`name` IS NULL''] '' AND '', None)"
proof -
  let ?t = "tableST [column ''id'' False, column ''name'' False]"
  let ?h = "emptyHeap(0 := [VInt64 1, VNil], 1 := [VInt64 1, VString ''a''])"
  have c: "Columns ?t \<noteq> []" by (simp add: example_defs)
  have l0: "length (?h 0) = length (Columns ?t)" and l1: "length (?h 1) = length (Columns ?t)"
    by (simp_all add: example_defs)
  have s: "\<forall>(i, name)\<in>set (matched ?t ?t). ?h 0 ! i \<noteq> VOther \<and> ?h 1 ! i \<noteq> VOther"
    by (simp add: matched_id_name)
  have n: "isNilValue VNil" "\<not> isNilValue (VInt64 1)" by (simp_all add: isNilValue_def)
  have st: "Schema ?t = ''s''" "Table.Name ?t = ''t''" by (simp_all add: example_defs)
  from update_statement_rendering [of ?t ?t ?h 0 1] c l0 l1 s
  have "AsSQLString (BinlogUpdateEvent 0 1 ?t) ?t ?h =
      Inr (''UPDATE '' @ QuotedTableNameFromString (Schema ?t) (Table.Name ?t) @
           '' SET '' @
           Join (map (\<lambda>(i, name). name @ ''='' @ literalText (?h 1 ! i)) (matched ?t ?t)) '','' @
           '' WHERE '' @
           Join (map (\<lambda>(i, name).
                        if isNilValue (?h 0 ! i) then name @ '' IS NULL''
                        else name @ ''='' @ literalText (?h 0 ! i))
                   (matched ?t ?t)) '' AND '', None)"
    by blast
  then have "AsSQLString (BinlogUpdateEvent 0 1 ?t) ?t ?h
   = Inr (''UPDATE '' @ QuotedTableNameFromString ''s'' ''t'' @
          '' SET '' @ Join [''`id`='' @ literalText (VInt64 1),
                            ''`name`='' @ literalText (VString ''a'')] '','' @
          '' WHERE '' @ Join [''`id`='' @ literalText (VInt64 1), ''`name` IS NULL''] '' AND '', None)"
    unfolding matched_id_name st by (simp add: n)
  with c l0 l1 show ?thesis by blast
qed

section \<open>Cells of unsigned columns\<close>

text \<open>
  C3, as amended. After a dispatch that returns without error, a cell of a column flagged
  unsigned that held a signed integer holds the unsigned integer of the same width with
  the same bits, and the literal rendered for a cell of such a column has no leading minus
  sign unless the cell is a floating-point number. The cell \<^verbatim>\<open>int64(-1)\<close> of an unsigned
  column is rendered in the INSERT statement as 18446744073709551615.
\<close>

theorem unsigned_columns_after_dispatch:
  "(Event ev = IsRowsEvent rowsEvent \<and>
    NewBinlogDMLEvents table ev h = (h', Inr (events, None)) \<and>
    r \<in> set (Rows rowsEvent) \<and> i < length (Columns table) \<and> IsUnsigned (Columns table ! i) \<longrightarrow>
      h' r ! i = toUnsigned (h r ! i) \<and>
      (\<forall>x. h r ! i = VInt8 x \<longrightarrow> h' r ! i = VUint8 x) \<and>
      (\<forall>x. h r ! i = VInt16 x \<longrightarrow> h' r ! i = VUint16 x) \<and>
      (\<forall>x. h r ! i = VInt32 x \<longrightarrow> h' r ! i = VUint32 x) \<and>
      (\<forall>x. h r ! i = VInt64 x \<longrightarrow> h' r ! i = VUint64 x) \<and>
      (\<forall>x. h r ! i = VInt x \<longrightarrow> h' r ! i = VUint x) \<and>
      (\<forall>s. appendEscapedValue [] (h' r ! i) = Inr s \<and>
            (\<forall>t. h r ! i \<noteq> VFloat64 t \<and> h r ! i \<noteq> VFloat32 t) \<longrightarrow> \<not> leadingMinus s)) \<and>
   NewBinlogDMLEvents (tableST [column ''id'' True]) (rowsBinlogEvent WRITE_ROWS_EVENTv2 [0])
     (emptyHeap(0 := [VInt64 (- 1)]))
     = (emptyHeap(0 := [VUint64 (- 1)]),
        Inr ([Some (BinlogInsertEvent 0 (tableST [column ''id'' True]))], None)) \<and>
   AsSQLString (BinlogInsertEvent 0 (tableST [column ''id'' True])) (tableST [column ''id'' True])
     (emptyHeap(0 := [VUint64 (- 1)]))
     = Inr (''INSERT IGNORE INTO `s`.`t` (`id`) VALUES (18446744073709551615)'', None)"
proof (intro conjI impI)
  assume a: "Event ev = IsRowsEvent rowsEvent \<and>
    NewBinlogDMLEvents table ev h = (h', Inr (events, None)) \<and>
    r \<in> set (Rows rowsEvent) \<and> i < length (Columns table) \<and> IsUnsigned (Columns table ! i)"
  then have u: "h' r ! i = toUnsigned (h r ! i)"
    using unsigned_cell_after_dispatch [of ev rowsEvent table h h' events r i] by blast
  show "h' r ! i = toUnsigned (h r ! i)" by (rule u)
  show "\<forall>x. h r ! i = VInt8 x \<longrightarrow> h' r ! i = VUint8 x" by (simp add: u toUnsigned_def)
  show "\<forall>x. h r ! i = VInt16 x \<longrightarrow> h' r ! i = VUint16 x" by (simp add: u toUnsigned_def)
  show "\<forall>x. h r ! i = VInt32 x \<longrightarrow> h' r ! i = VUint32 x" by (simp add: u toUnsigned_def)
  show "\<forall>x. h r ! i = VInt64 x \<longrightarrow> h' r ! i = VUint64 x" by (simp add: u toUnsigned_def)
  show "\<forall>x. h r ! i = VInt x \<longrightarrow> h' r ! i = VUint x" by (simp add: u toUnsigned_def)
  show "\<forall>s. appendEscapedValue [] (h' r ! i) = Inr s \<and>
            (\<forall>t. h r ! i \<noteq> VFloat64 t \<and> h r ! i \<noteq> VFloat32 t) \<longrightarrow> \<not> leadingMinus s"
    unfolding u
    using literal_no_leading_minus [OF _ Int64Value_toUnsigned toUnsigned_float] by blast
next
  show "NewBinlogDMLEvents (tableST [column ''id'' True]) (rowsBinlogEvent WRITE_ROWS_EVENTv2 [0])
     (emptyHeap(0 := [VInt64 (- 1)]))
     = (emptyHeap(0 := [VUint64 (- 1)]),
        Inr ([Some (BinlogInsertEvent 0 (tableST [column ''id'' True]))], None))"
    by (simp add: example_defs dispatch_defs)
next
  show "AsSQLString (BinlogInsertEvent 0 (tableST [column ''id'' True])) (tableST [column ''id'' True])
     (emptyHeap(0 := [VUint64 (- 1)]))
     = Inr (''INSERT IGNORE INTO `s`.`t` (`id`) VALUES (18446744073709551615)'', None)"
    by (simp add: example_defs render_defs unsigned_minus_1_eq_mask mask_eq_exp_minus_1)
qed

theorem unsigned_columns_after_dispatch_witness:
  "Event (rowsBinlogEvent WRITE_ROWS_EVENTv2 [0]) = IsRowsEvent \<lparr>Rows = [0]\<rparr> \<and>
   NewBinlogDMLEvents (tableST [column ''id'' True]) (rowsBinlogEvent WRITE_ROWS_EVENTv2 [0])
     (emptyHeap(0 := [VInt8 (- 1)]))
     = (emptyHeap(0 := [VUint8 (- 1)]),
        Inr ([Some (BinlogInsertEvent 0 (tableST [column ''id'' True]))], None)) \<and>
   0 \<in> set (Rows \<lparr>Rows = [0]\<rparr>) \<and>
   0 < length (Columns (tableST [column ''id'' True])) \<and>
   IsUnsigned (Columns (tableST [column ''id'' True]) ! 0) \<and>
   (emptyHeap(0 := [VUint8 (- 1)])) 0 ! 0 = toUnsigned ((emptyHeap(0 := [VInt8 (- 1)])) 0 ! 0) \<and>
   appendEscapedValue [] ((emptyHeap(0 := [VUint8 (- 1)])) 0 ! 0) = Inr ''255'' \<and>
   \<not> leadingMinus ''255''"
proof -
  let ?t = "tableST [column ''id'' True]"
  let ?ev = "rowsBinlogEvent WRITE_ROWS_EVENTv2 [0]"
  let ?h = "emptyHeap(0 := [VInt8 (- 1)])"
  let ?h' = "emptyHeap(0 := [VUint8 (- 1)])"
  let ?events = "[Some (BinlogInsertEvent 0 ?t)]"
  have e: "Event ?ev = IsRowsEvent \<lparr>Rows = [0]\<rparr>" by (simp add: example_defs)
  have d: "NewBinlogDMLEvents ?t ?ev ?h = (?h', Inr (?events, None))"
    by (simp add: example_defs dispatch_defs)
  have r: "0 \<in> set (Rows \<lparr>Rows = [0]\<rparr>)" by simp
  have i: "0 < length (Columns ?t)" and u: "IsUnsigned (Columns ?t ! 0)"
    by (simp_all add: example_defs)
  have s: "appendEscapedValue [] (?h' 0 ! 0) = Inr ''255''"
    by (simp add: render_defs unsigned_minus_1_eq_mask mask_eq_exp_minus_1)
  have f: "\<forall>t. ?h 0 ! 0 \<noteq> VFloat64 t \<and> ?h 0 ! 0 \<noteq> VFloat32 t" by simp
  from unsigned_columns_after_dispatch [of ?ev "\<lparr>Rows = [0]\<rparr>" ?t ?h ?h' ?events 0 0] e d r i u
  have c: "?h' 0 ! 0 = toUnsigned (?h 0 ! 0) \<and>
      (\<forall>s. appendEscapedValue [] (?h' 0 ! 0) = Inr s \<and>
            (\<forall>t. ?h 0 ! 0 \<noteq> VFloat64 t \<and> ?h 0 ! 0 \<noteq> VFloat32 t) \<longrightarrow> \<not> leadingMinus s)"
    by blast
  with s f have "\<not> leadingMinus ''255''" by blast
  with e d r i u c s show ?thesis by blast
qed

text \<open>
  The claim as stated covers every literal of an unsigned column. A floating-point cell is
  no case of the type switch: it passes through the dispatch unchanged, and a negative one
  is rendered with its minus sign.
\<close>

theorem negative_float_in_unsigned_column:
  "NewBinlogDMLEvents (tableST [column ''x'' True]) (rowsBinlogEvent WRITE_ROWS_EVENTv2 [0])
     (emptyHeap(0 := [VFloat64 ''-1.5'']))
     = (emptyHeap(0 := [VFloat64 ''-1.5'']),
        Inr ([Some (BinlogInsertEvent 0 (tableST [column ''x'' True]))], None)) \<and>
   AsSQLString (BinlogInsertEvent 0 (tableST [column ''x'' True])) (tableST [column ''x'' True])
     (emptyHeap(0 := [VFloat64 ''-1.5'']))
     = Inr (''INSERT IGNORE INTO `s`.`t` (`x`) VALUES (-1.5)'', None) \<and>
   appendEscapedValue [] (VFloat64 ''-1.5'') = Inr ''-1.5'' \<and>
   leadingMinus ''-1.5''"
  by (simp add: example_defs dispatch_defs render_defs leadingMinus_def)

section \<open>Update events pair their rows\<close>

text \<open>
  C4. For an update event of \<open>2N\<close> rows the constructor returns, without panic or error,
  exactly \<open>N\<close> statements; statement \<open>i\<close> is an update statement whose old image is
  row \<open>2i\<close> and whose new image is row \<open>2i + 1\<close> of the event.
\<close>

theorem update_events_pair_rows:
  assumes "length (Rows rowsEvent) = 2 * N"
  shows "\<exists>updateEvents. NewBinlogUpdateEvents table rowsEvent = Inr (updateEvents, None) \<and>
           length updateEvents = N \<and>
           (\<forall>i<N. \<exists>e. updateEvents ! i = Some e \<and>
                    e = BinlogUpdateEvent (Rows rowsEvent ! (2 * i)) (Rows rowsEvent ! (2 * i + 1)) table \<and>
                    OldValues e = Some (Rows rowsEvent ! (2 * i)) \<and>
                    NewValues e = Some (Rows rowsEvent ! (2 * i + 1)))"
proof -
  from assms have "even (length (Rows rowsEvent))" by simp
  from NewBinlogUpdateEvents_even [OF this, of table] assms show ?thesis by auto
qed

theorem update_events_pair_rows_witness:
  "length (Rows \<lparr>Rows = [10, 11, 12, 13]\<rparr>) = 2 * 2 \<and>
   NewBinlogUpdateEvents (tableST [column ''id'' False]) \<lparr>Rows = [10, 11, 12, 13]\<rparr> =
     Inr ([Some (BinlogUpdateEvent 10 11 (tableST [column ''id'' False])),
           Some (BinlogUpdateEvent 12 13 (tableST [column ''id'' False]))], None)"
proof -
  let ?t = "tableST [column ''id'' False]"
  let ?re = "\<lparr>Rows = [10, 11, 12, 13]\<rparr>"
  have len: "length (Rows ?re) = 2 * 2" by simp
  from update_events_pair_rows [OF len, of ?t]
  obtain evs where evs: "NewBinlogUpdateEvents ?t ?re = Inr (evs, None)" "length evs = 2"
    "\<forall>i<2. evs ! i = Some (BinlogUpdateEvent (Rows ?re ! (2 * i)) (Rows ?re ! (2 * i + 1)) ?t)"
    by auto
  from evs(3) have "evs ! 0 = Some (BinlogUpdateEvent 10 11 ?t)"
    and "evs ! 1 = Some (BinlogUpdateEvent 12 13 ?t)"
    by (auto simp: numeral_2_eq_2 numeral_3_eq_3)
  with evs(2) have "evs = [Some (BinlogUpdateEvent 10 11 ?t), Some (BinlogUpdateEvent 12 13 ?t)]"
    by (cases evs; cases "tl evs"; cases "tl (tl evs)") auto
  with evs(1) len show ?thesis by simp
qed

section \<open>Absent values and nil byte slices\<close>

lemma isNilValue_nilBytesAsNil: "isNilValue (nilBytesAsNil v) = isNilValue v"
  by (simp add: nilBytesAsNil_def isNilValue_iff)

lemma appendEscapedValue_nilBytesAsNil:
  "appendEscapedValue buffer (nilBytesAsNil v) = appendEscapedValue buffer v"
  by (simp add: nilBytesAsNil_def appendEscapedValue_nil isNilValue_iff)

lemma valuesLoop_nilBytesAsNil:
  "valuesLoop i (map nilBytesAsNil values) buffer = valuesLoop i values buffer"
  by (induction "values" arbitrary: i buffer)
     (simp_all add: appendEscapedValue_nilBytesAsNil split: sum.splits)

lemma setLoop_nilBytesAsNil:
  "setLoop columns i (map nilBytesAsNil values) buffer = setLoop columns i values buffer"
  by (induction "values" arbitrary: i buffer)
     (simp_all add: appendEscapedValue_nilBytesAsNil split: sum.splits)

lemma whereLoop_nilBytesAsNil:
  "whereLoop columns i (map nilBytesAsNil values) buffer = whereLoop columns i values buffer"
  by (induction "values" arbitrary: i buffer)
     (simp_all add: appendEscapedValue_nilBytesAsNil isNilValue_nilBytesAsNil split: sum.splits)

lemma AsSQLString_nilBytesAsNil:
  "AsSQLString e intersection (\<lambda>r. map nilBytesAsNil (h r)) = AsSQLString e intersection h"
proof (cases e)
  case (BinlogInsertEvent newValues table)
  show ?thesis
    unfolding BinlogInsertEvent
    using loadColumnsAndValuesInIntersection_map [of table intersection nilBytesAsNil "[h newValues]"]
    by (auto simp: at_def buildStringListForValues_def valuesLoop_nilBytesAsNil
        split: sum.splits prod.splits option.splits)
next
  case (BinlogUpdateEvent oldValues newValues table)
  show ?thesis
    unfolding BinlogUpdateEvent
    using loadColumnsAndValuesInIntersection_map [of table intersection nilBytesAsNil
        "[h oldValues, h newValues]"]
    by (auto simp: at_def buildStringMapForSet_def buildStringMapForWhere_def
        setLoop_nilBytesAsNil whereLoop_nilBytesAsNil
        split: sum.splits prod.splits option.splits)
next
  case (BinlogDeleteEvent oldValues table)
  show ?thesis
    unfolding BinlogDeleteEvent
    using loadColumnsAndValuesInIntersection_map [of table intersection nilBytesAsNil "[h oldValues]"]
    by (auto simp: at_def buildStringMapForWhere_def whereLoop_nilBytesAsNil
        split: sum.splits prod.splits option.splits)
qed

text \<open>
  C5, as amended. The absent value and the nil byte slice are rendered alike: the escape
  routine appends \<open>NULL\<close> for both, the WHERE builder emits \<open>IS NULL\<close> for both, and
  replacing the nil byte slices of the rows by absent values changes the output of none of
  the three builders and of no rendered statement.
\<close>

theorem nil_and_nil_bytes_are_rendered_alike:
  "appendEscapedValue buffer VNil = Inr (buffer @ ''NULL'') \<and>
   appendEscapedValue buffer (VBytes None) = Inr (buffer @ ''NULL'') \<and>
   buildStringMapForWhere [c] [VNil] = Inr (c @ '' IS NULL'') \<and>
   buildStringMapForWhere [c] [VBytes None] = Inr (c @ '' IS NULL'') \<and>
   buildStringListForValues (map nilBytesAsNil values) = buildStringListForValues values \<and>
   buildStringMapForSet columns (map nilBytesAsNil values) = buildStringMapForSet columns values \<and>
   buildStringMapForWhere columns (map nilBytesAsNil values) = buildStringMapForWhere columns values \<and>
   AsSQLString e intersection (\<lambda>r. map nilBytesAsNil (h r)) = AsSQLString e intersection h"
  by (simp add: appendEscapedValue_nil isNilValue_iff buildStringMapForWhere_def
      buildStringListForValues_def buildStringMapForSet_def
      valuesLoop_nilBytesAsNil setLoop_nilBytesAsNil whereLoop_nilBytesAsNil
      AsSQLString_nilBytesAsNil)

text \<open>
  The claim as stated also covers the empty byte buffer. A byte slice that is empty but not
  nil is not treated as NULL: it is rendered as the empty binary literal, in the VALUES
  position and in the WHERE list.
\<close>

theorem empty_bytes_render_as_binary:
  "appendEscapedValue [] (VBytes (Some [])) = Inr (''_binary'' @ [CHR 0x27, CHR 0x27]) \<and>
   appendEscapedValue [] (VBytes (Some [])) \<noteq> appendEscapedValue [] VNil \<and>
   buildStringMapForWhere [''c''] [VBytes (Some [])] = Inr (''c=_binary'' @ [CHR 0x27, CHR 0x27]) \<and>
   buildStringMapForWhere [''c''] [VBytes (Some [])] \<noteq> buildStringMapForWhere [''c''] [VNil]"
  by (simp add: render_defs)

section \<open>Schema mismatches\<close>

text \<open>
  C6, as amended. A row whose number of cells differs from the table's number of columns
  is surfaced as a structured error: by the dispatch entry point for the rows of an event
  and by the projection for the row images of a statement. Whenever the dispatch entry
  point or the rendering of a statement returns an error, the statement list or the SQL
  text returned beside it is empty.
\<close>

theorem row_width_mismatch_is_error:
  "(Event ev = IsRowsEvent rowsEvent \<and>
    (\<exists>r\<in>set (Rows rowsEvent). length (h r) \<noteq> length (Columns table)) \<longrightarrow>
      (\<exists>h' n. n \<noteq> length (Columns table) \<and>
         NewBinlogDMLEvents table ev h =
           (h', Inr ([], Some (ColumnCountMismatch (Schema table) (Table.Name table)
                                 (length (Columns table)) n))))) \<and>
   (NewBinlogDMLEvents table ev h = (h1, Inr (events, Some err)) \<longrightarrow> events = []) \<and>
   (Columns table \<noteq> [] \<and> Columns intersection \<noteq> [] \<and>
    (\<exists>values\<in>set images. length values \<noteq> length (Columns table)) \<longrightarrow>
      (\<exists>n. n \<noteq> length (Columns table) \<and>
         loadColumnsAndValuesInIntersection table intersection images =
           Inr (([], []), Some (ColumnCountMismatch (Schema table) (Table.Name table)
                                  (length (Columns table)) n)))) \<and>
   (AsSQLString e intersection h = Inr (sql, Some err2) \<longrightarrow> sql = [])"
  using NewBinlogDMLEvents_mismatch [of ev rowsEvent h table]
    NewBinlogDMLEvents_error_alone [of table ev h h1 events err]
    loadColumnsAndValuesInIntersection_mismatch [of table intersection images]
    AsSQLString_error_alone [of e intersection h sql err2]
  by blast

theorem row_width_mismatch_is_error_witness:
  "Event (rowsBinlogEvent WRITE_ROWS_EVENTv2 [0, 1]) = IsRowsEvent \<lparr>Rows = [0, 1]\<rparr> \<and>
   length ((emptyHeap(0 := [VInt64 1, VNil], 1 := [VInt64 2])) 1) \<noteq>
     length (Columns (tableST [column ''id'' False, column ''name'' False])) \<and>
   NewBinlogDMLEvents (tableST [column ''id'' False, column ''name'' False])
     (rowsBinlogEvent WRITE_ROWS_EVENTv2 [0, 1])
     (emptyHeap(0 := [VInt64 1, VNil], 1 := [VInt64 2]))
     = (emptyHeap(0 := [VInt64 1, VNil], 1 := [VInt64 2]),
        Inr ([], Some (ColumnCountMismatch ''s'' ''t'' 2 1))) \<and>
   Columns (tableST [column ''id'' False, column ''name'' False]) \<noteq> [] \<and>
   loadColumnsAndValuesInIntersection (tableST [column ''id'' False, column ''name'' False])
     (tableST [column ''id'' False, column ''name'' False]) [[VInt64 2]]
     = Inr (([], []), Some (ColumnCountMismatch ''s'' ''t'' 2 1)) \<and>
   AsSQLString (BinlogInsertEvent 1 (tableST [column ''id'' False, column ''name'' False]))
     (tableST [column ''id'' False, column ''name'' False])
     (emptyHeap(0 := [VInt64 1, VNil], 1 := [VInt64 2]))
     = Inr ([], Some (ColumnCountMismatch ''s'' ''t'' 2 1))"
proof -
  let ?t = "tableST [column ''id'' False, column ''name'' False]"
  let ?ev = "rowsBinlogEvent WRITE_ROWS_EVENTv2 [0, 1]"
  let ?h = "emptyHeap(0 := [VInt64 1, VNil], 1 := [VInt64 2])"
  let ?err = "ColumnCountMismatch ''s'' ''t'' 2 1"
  let ?e = "BinlogInsertEvent 1 ?t"
  note inst = row_width_mismatch_is_error [of ?ev "\<lparr>Rows = [0, 1]\<rparr>" ?h ?t ?h "[]" ?err ?t
      "[[VInt64 2]]" ?e "[]" ?err]
  have e: "Event ?ev = IsRowsEvent \<lparr>Rows = [0, 1]\<rparr>" by (simp add: example_defs)
  have l: "length (?h 1) \<noteq> length (Columns ?t)" by (simp add: example_defs)
  have c: "Columns ?t \<noteq> []" by (simp add: example_defs)
  have d: "NewBinlogDMLEvents ?t ?ev ?h = (?h, Inr ([], Some ?err))"
    by (simp add: example_defs dispatch_defs fun_eq_iff)
  have s: "AsSQLString ?e ?t ?h = Inr ([], Some ?err)"
    by (simp add: example_defs render_defs)
  from l have "\<exists>r\<in>set (Rows \<lparr>Rows = [0, 1]\<rparr>). length (?h r) \<noteq> length (Columns ?t)" by simp
  with inst e obtain h' n where
    "NewBinlogDMLEvents ?t ?ev ?h =
       (h', Inr ([], Some (ColumnCountMismatch (Schema ?t) (Table.Name ?t) (length (Columns ?t)) n)))"
    by blast
  have "\<exists>values\<in>set [[VInt64 2]]. length values \<noteq> length (Columns ?t)"
    by (simp add: example_defs)
  with inst c obtain n where
    "loadColumnsAndValuesInIntersection ?t ?t [[VInt64 2]] =
       Inr (([], []), Some (ColumnCountMismatch (Schema ?t) (Table.Name ?t) (length (Columns ?t)) n))"
    by blast
  then have ld: "loadColumnsAndValuesInIntersection ?t ?t [[VInt64 2]] = Inr (([], []), Some ?err)"
    by (simp add: example_defs render_defs)
  from e l d c ld s show ?thesis by blast
qed

text \<open>
  The claim as stated also covers an empty source or intersection column list. That case
  is no error return: the projection panics.
\<close>

theorem zero_columns_panic:
  "AsSQLString (BinlogInsertEvent 0 (tableST [column ''a'' False])) (tableST [])
     (emptyHeap(0 := [VInt64 1]))
     = Inl (ZeroColumns 1 0) \<and>
   loadColumnsAndValuesInIntersection (tableST []) (tableST [column ''a'' False]) [[]]
     = Inl (ZeroColumns 0 1)"
  by (simp add: example_defs render_defs)

section \<open>Projection onto the intersection\<close>

text \<open>
  C7. When neither column list is empty and every row image has the table's width, the
  projection returns the quoted names of exactly the source columns whose name appears in
  the intersection schema, in source order, and reduces every row image to the cells at
  the source indices of those columns. For the source columns \<open>(a, b, c)\<close>, the
  intersection \<open>(a, c)\<close> and the row \<open>(1, 2, 3)\<close> the rendered statement is the INSERT
  the specification gives.
\<close>

theorem intersection_projection:
  "(Columns table \<noteq> [] \<and> Columns intersection \<noteq> [] \<and>
    (\<forall>values\<in>set images. length values = length (Columns table)) \<longrightarrow>
    loadColumnsAndValuesInIntersection table intersection images =
      Inr ((map snd (matched table intersection),
            map (\<lambda>values. map (\<lambda>(i, name). values ! i) (matched table intersection)) images),
           None) \<and>
    (\<forall>(i, name)\<in>set (matched table intersection).
        i < length (Columns table) \<and> name = quoteField (Column.Name (Columns table ! i)))) \<and>
   AsSQLString
     (BinlogInsertEvent 0 (tableST [column ''a'' False, column ''b'' False, column ''c'' False]))
     (tableST [column ''a'' False, column ''c'' False])
     (emptyHeap(0 := [VInt64 1, VInt64 2, VInt64 3]))
   = Inr (''INSERT IGNORE INTO `s`.`t` (`a`,`c`) VALUES (1,3)'', None)"
proof (intro conjI impI)
  assume a: "Columns table \<noteq> [] \<and> Columns intersection \<noteq> [] \<and>
    (\<forall>values\<in>set images. length values = length (Columns table))"
  then show "loadColumnsAndValuesInIntersection table intersection images =
      Inr ((map snd (matched table intersection),
            map (\<lambda>values. map (\<lambda>(i, name). values ! i) (matched table intersection)) images),
           None)"
    using loadColumnsAndValuesInIntersection_ok [of table intersection images] by blast
  show "\<forall>(i, name)\<in>set (matched table intersection).
        i < length (Columns table) \<and> name = quoteField (Column.Name (Columns table ! i))"
    by (auto simp: matched_def)
next
  show "AsSQLString
     (BinlogInsertEvent 0 (tableST [column ''a'' False, column ''b'' False, column ''c'' False]))
     (tableST [column ''a'' False, column ''c'' False])
     (emptyHeap(0 := [VInt64 1, VInt64 2, VInt64 3]))
   = Inr (''INSERT IGNORE INTO `s`.`t` (`a`,`c`) VALUES (1,3)'', None)"
    by (simp add: example_defs render_defs)
qed

lemma matched_abc:
  "matched (tableST [column ''a'' False, column ''b'' False, column ''c'' False])
           (tableST [column ''a'' False, column ''c'' False]) = [(0, ''`a`''), (2, ''`c`'')]"
  by (simp add: matched_def example_defs quoteField_def upt_rec)

theorem intersection_projection_witness:
  "Columns (tableST [column ''a'' False, column ''b'' False, column ''c'' False]) \<noteq> [] \<and>
   Columns (tableST [column ''a'' False, column ''c'' False]) \<noteq> [] \<and>
   length [VInt64 1, VInt64 2, VInt64 3] =
     length (Columns (tableST [column ''a'' False, column ''b'' False, column ''c'' False])) \<and>
   loadColumnsAndValuesInIntersection
     (tableST [column ''a'' False, column ''b'' False, column ''c'' False])
     (tableST [column ''a'' False, column ''c'' False])
     [[VInt64 1, VInt64 2, VInt64 3]]
   = Inr (([''`a`'', ''`c`''], [[VInt64 1, VInt64 3]]), None)"
proof -
  let ?t = "tableST [column ''a'' False, column ''b'' False, column ''c'' False]"
  let ?i = "tableST [column ''a'' False, column ''c'' False]"
  let ?row = "[VInt64 1, VInt64 2, VInt64 3]"
  have c: "Columns ?t \<noteq> []" "Columns ?i \<noteq> []" by (simp_all add: example_defs)
  have l: "length ?row = length (Columns ?t)" by (simp add: example_defs)
  then have "\<forall>values\<in>set [?row]. length values = length (Columns ?t)" by simp
  with intersection_projection [of ?t ?i "[?row]"] c
  have "loadColumnsAndValuesInIntersection ?t ?i [?row] =
      Inr ((map snd (matched ?t ?i),
            map (\<lambda>values. map (\<lambda>(i, name). values ! i) (matched ?t ?i)) [?row]), None)"
    by blast
  then have "loadColumnsAndValuesInIntersection ?t ?i [?row] =
      Inr (([''`a`'', ''`c`''], [[VInt64 1, VInt64 3]]), None)"
    unfolding matched_abc by simp
  with c l show ?thesis by blast
qed

section \<open>Catching up with the target position\<close>

lemma Compare_reached: "0 \<le> Compare p q \<longleftrightarrow> reached q p"
  by (auto simp: Compare_def reached_def less_eq_prod_def)

lemma WithRetries_success:
  "0 < n \<Longrightarrow> WithRetries n f s = (None, s') \<Longrightarrow> \<exists>s0. f s0 = (None, s')"
proof (induction n arbitrary: s)
  case 0
  then show ?case by simp
next
  case (Suc n)
  show ?case
  proof (cases "f s")
    case (Pair eo s1)
    show ?thesis
    proof (cases eo)
      case None
      with Pair Suc.prems(2) show ?thesis by auto
    next
      case (Some err)
      with Pair Suc.prems(2) have "0 < n" and "WithRetries n f s1 = (None, s')"
        by (auto split: if_splits)
      then show ?thesis by (rule Suc.IH)
    qed
  qed
qed

lemma WithRetries_first: "f s = (None, s') \<Longrightarrow> WithRetries (Suc n) f s = (None, s')"
  by simp

lemma IsCaughtUp_success:
  assumes "IsCaughtUp w db = ((caughtUp, None), db')"
  shows "\<exists>replicaPos db0. ReplicatedMasterPositionFetcher w db0 = ((replicaPos, None), db') \<and>
           (caughtUp \<longleftrightarrow> reached (targetMasterPos w) replicaPos)"
proof -
  let ?init = "(\<lparr>Position.Name = [], Pos = 0\<rparr>, db)"
  obtain eo pos db1 where r: "WithRetries 100 (readReplicatedMasterPos w) ?init = (eo, (pos, db1))"
    by (metis surj_pair)
  with assms have eo: "eo = None" and db1: "db1 = db'"
    and c: "caughtUp \<longleftrightarrow> 0 \<le> Compare pos (targetMasterPos w)"
    by (auto simp: IsCaughtUp_def split: option.splits if_splits)
  from WithRetries_success [OF _ r [unfolded eo]]
  obtain s0 where "readReplicatedMasterPos w s0 = (None, (pos, db1))" by auto
  then obtain p0 db0 where "ReplicatedMasterPositionFetcher w db0 = ((pos, None), db1)"
    by (cases s0) (auto simp: readReplicatedMasterPos_def split: prod.splits)
  with c db1 show ?thesis by (auto simp: Compare_reached)
qed

lemma IsCaughtUp_first_fetch:
  assumes "ReplicatedMasterPositionFetcher w db = ((replicaPos, None), db')"
  shows "IsCaughtUp w db = ((reached (targetMasterPos w) replicaPos, None), db')"
proof -
  let ?init = "(\<lparr>Position.Name = [], Pos = 0\<rparr>, db)"
  have "readReplicatedMasterPos w ?init = (None, (replicaPos, db'))"
    using assms by (simp add: readReplicatedMasterPos_def)
  then have "WithRetries (Suc 99) (readReplicatedMasterPos w) ?init = (None, (replicaPos, db'))"
    by (rule WithRetries_first)
  then show ?thesis
    by (simp add: IsCaughtUp_def Compare_reached)
qed

text \<open>
  C8. Whenever \<^verbatim>\<open>IsCaughtUp\<close> returns without error, a fetch of the replica's position
  has succeeded, and the answer is true exactly when the fetched position is greater than
  or equal to the recorded target position in the order that is lexicographic on the file
  name and then numeric on the offset. In particular, when the first fetch succeeds the
  answer is that comparison of the position it returns.
\<close>

theorem IsCaughtUp_iff_reached:
  "(IsCaughtUp w db = ((caughtUp, None), db') \<longrightarrow>
      (\<exists>replicaPos db0. ReplicatedMasterPositionFetcher w db0 = ((replicaPos, None), db') \<and>
         (caughtUp \<longleftrightarrow> reached (targetMasterPos w) replicaPos))) \<and>
   (ReplicatedMasterPositionFetcher w db = ((replicaPos, None), db1) \<longrightarrow>
      IsCaughtUp w db = ((reached (targetMasterPos w) replicaPos, None), db1))"
  using IsCaughtUp_success [of w db caughtUp db'] IsCaughtUp_first_fetch [of w db replicaPos db1]
  by blast

lemma WithRetries_numeral:
  "WithRetries (numeral k) f s =
     (case f s of
        (None, s') \<Rightarrow> (None, s')
      | (Some err, s') \<Rightarrow>
          (if pred_numeral k = 0 then (Some err, s') else WithRetries (pred_numeral k) f s'))"
  by (simp add: numeral_eq_Suc)

lemma heartbeat_IsCaughtUp_0: "IsCaughtUp heartbeatCoordinator 0 = ((False, None), 2)"
  by (simp add: IsCaughtUp_def WithRetries_numeral heartbeatCoordinator_def heartbeatFetcher_def
      heartbeatPosition_def readReplicatedMasterPos_def Compare_def)

theorem IsCaughtUp_iff_reached_witness:
  "IsCaughtUp heartbeatCoordinator 0 = ((False, None), 2) \<and>
   ReplicatedMasterPositionFetcher heartbeatCoordinator 1 = ((heartbeatPosition 4000, None), 2) \<and>
   \<not> reached (targetMasterPos heartbeatCoordinator) (heartbeatPosition 4000) \<and>
   ReplicatedMasterPositionFetcher heartbeatCoordinator 2 = ((heartbeatPosition 5000, None), 3) \<and>
   reached (targetMasterPos heartbeatCoordinator) (heartbeatPosition 5000) \<and>
   IsCaughtUp heartbeatCoordinator 2 = ((True, None), 3)"
proof -
  let ?w = heartbeatCoordinator
  have f1: "ReplicatedMasterPositionFetcher ?w 1 = ((heartbeatPosition 4000, None), 2)"
    and f2: "ReplicatedMasterPositionFetcher ?w 2 = ((heartbeatPosition 5000, None), 3)"
    by (simp_all add: heartbeatCoordinator_def heartbeatFetcher_def)
  have r1: "\<not> reached (targetMasterPos ?w) (heartbeatPosition 4000)"
    and r2: "reached (targetMasterPos ?w) (heartbeatPosition 5000)"
    by (simp_all add: heartbeatCoordinator_def heartbeatPosition_def reached_def)
  from IsCaughtUp_iff_reached [of ?w 2 True 3 "heartbeatPosition 5000" 3] f2 r2
  have c2: "IsCaughtUp ?w 2 = ((True, None), 3)" by simp
  from IsCaughtUp_iff_reached [of ?w 0 False 2 "heartbeatPosition 4000" 2] heartbeat_IsCaughtUp_0
  obtain replicaPos db0 where "ReplicatedMasterPositionFetcher ?w db0 = ((replicaPos, None), 2)"
    "\<not> reached (targetMasterPos ?w) replicaPos" by blast
  from heartbeat_IsCaughtUp_0 f1 r1 f2 r2 c2 show ?thesis by blast
qed

section \<open>What the dispatch entry point does to the row buffers\<close>

text \<open>
  C9, as amended. A dispatch that returns without error has rewritten the event's row
  buffers in place: a cell of an unsigned column holds what the type switch makes of it,
  every other cell of the event's rows and every other buffer is unchanged; and every row
  image held by a returned statement is one of the event's row slices, sharing its backing
  storage.
\<close>

theorem dispatch_rewrites_rows_in_place:
  assumes "Event ev = IsRowsEvent rowsEvent"
    and "NewBinlogDMLEvents table ev h = (h', Inr (events, None))"
  shows "(\<forall>r. r \<notin> set (Rows rowsEvent) \<longrightarrow> h' r = h r) \<and>
         (\<forall>r\<in>set (Rows rowsEvent).
            length (h' r) = length (h r) \<and>
            (\<forall>i<length (h r). h' r ! i =
               (if IsUnsigned (Columns table ! i) then toUnsigned (h r ! i) else h r ! i))) \<and>
         (\<forall>e x. Some e \<in> set events \<and> (OldValues e = Some x \<or> NewValues e = Some x)
                 \<longrightarrow> x \<in> set (Rows rowsEvent))"
proof -
  from NewBinlogDMLEvents_success [OF assms]
  have n: "normalizeRowsLoop table (Rows rowsEvent) h = (h', None)" .
  from normalizeRowsLoop_ok [OF n]
  have len: "\<forall>r\<in>set (Rows rowsEvent). length (h r) = length (Columns table)"
    and h': "h' = (\<lambda>r. if r \<in> set (Rows rowsEvent)
                        then normalizeColumnsLoop 0 (Columns table) (h r) else h r)"
    by simp_all
  have a: "\<forall>r. r \<notin> set (Rows rowsEvent) \<longrightarrow> h' r = h r"
    by (simp add: h')
  have b: "\<forall>r\<in>set (Rows rowsEvent).
            length (h' r) = length (h r) \<and>
            (\<forall>i<length (h r). h' r ! i =
               (if IsUnsigned (Columns table ! i) then toUnsigned (h r ! i) else h r ! i))"
    using len by (simp add: h' normalizeColumnsLoop_length normalizeColumnsLoop_nth)
  have c: "\<forall>e x. Some e \<in> set events \<and> (OldValues e = Some x \<or> NewValues e = Some x)
                 \<longrightarrow> x \<in> set (Rows rowsEvent)"
    using dispatch_events_refs [OF assms] by blast
  from a b c show ?thesis by blast
qed

theorem dispatch_rewrites_rows_in_place_witness:
  "Event (rowsBinlogEvent UPDATE_ROWS_EVENTv2 [0, 1]) = IsRowsEvent \<lparr>Rows = [0, 1]\<rparr> \<and>
   NewBinlogDMLEvents (tableST [column ''id'' True, column ''name'' False])
     (rowsBinlogEvent UPDATE_ROWS_EVENTv2 [0, 1])
     (emptyHeap(0 := [VInt64 (- 1), VNil], 1 := [VInt64 1, VString ''a'']))
     = (emptyHeap(0 := [VUint64 (- 1), VNil], 1 := [VUint64 1, VString ''a'']),
        Inr ([Some (BinlogUpdateEvent 0 1 (tableST [column ''id'' True, column ''name'' False]))],
             None)) \<and>
   (emptyHeap(0 := [VUint64 (- 1), VNil], 1 := [VUint64 1, VString ''a''])) 2 =
     (emptyHeap(0 := [VInt64 (- 1), VNil], 1 := [VInt64 1, VString ''a''])) 2 \<and>
   length ((emptyHeap(0 := [VUint64 (- 1), VNil], 1 := [VUint64 1, VString ''a''])) 0) =
     length ((emptyHeap(0 := [VInt64 (- 1), VNil], 1 := [VInt64 1, VString ''a''])) 0) \<and>
   OldValues (BinlogUpdateEvent 0 1 (tableST [column ''id'' True, column ''name'' False])) = Some 0 \<and>
   0 \<in> set (Rows \<lparr>Rows = [0, 1]\<rparr>)"
proof -
  let ?t = "tableST [column ''id'' True, column ''name'' False]"
  let ?ev = "rowsBinlogEvent UPDATE_ROWS_EVENTv2 [0, 1]"
  let ?h = "emptyHeap(0 := [VInt64 (- 1), VNil], 1 := [VInt64 1, VString ''a''])"
  let ?h' = "emptyHeap(0 := [VUint64 (- 1), VNil], 1 := [VUint64 1, VString ''a''])"
  let ?e = "BinlogUpdateEvent 0 1 ?t"
  have e: "Event ?ev = IsRowsEvent \<lparr>Rows = [0, 1]\<rparr>" by (simp add: example_defs)
  have d: "NewBinlogDMLEvents ?t ?ev ?h = (?h', Inr ([Some ?e], None))"
    by (simp add: example_defs dispatch_defs fun_upd_twist)
  have o: "OldValues ?e = Some 0" by simp
  from dispatch_rewrites_rows_in_place [OF e d]
  have a: "\<forall>r. r \<notin> set (Rows \<lparr>Rows = [0, 1]\<rparr>) \<longrightarrow> ?h' r = ?h r"
    and b: "\<forall>r\<in>set (Rows \<lparr>Rows = [0, 1]\<rparr>). length (?h' r) = length (?h r)"
    and c: "\<forall>e x. Some e \<in> set [Some ?e] \<and> (OldValues e = Some x \<or> NewValues e = Some x)
                 \<longrightarrow> x \<in> set (Rows \<lparr>Rows = [0, 1]\<rparr>)"
    by blast+
  from a have a': "?h' 2 = ?h 2" by simp
  from b have b': "length (?h' 0) = length (?h 0)" by simp
  from c o have c': "0 \<in> set (Rows \<lparr>Rows = [0, 1]\<rparr>)" by simp
  from e d a' b' o c' show ?thesis by blast
qed

text \<open>
  The claim as stated says that the row buffers are left unchanged and that the statements
  hold no reference to them. For a delete event with the row \<^verbatim>\<open>int64(-1)\<close> in an unsigned
  column, the buffer of the row holds \<^verbatim>\<open>uint64\<close> afterwards, and the old image of the
  returned statement is that same row slice.
\<close>

theorem dispatch_overwrites_and_shares_row:
  "NewBinlogDMLEvents (tableST [column ''id'' True]) (rowsBinlogEvent DELETE_ROWS_EVENTv2 [0])
     (emptyHeap(0 := [VInt64 (- 1)]))
     = (emptyHeap(0 := [VUint64 (- 1)]),
        Inr ([Some (BinlogDeleteEvent 0 (tableST [column ''id'' True]))], None)) \<and>
   (emptyHeap(0 := [VUint64 (- 1)])) 0 \<noteq> (emptyHeap(0 := [VInt64 (- 1)])) 0 \<and>
   OldValues (BinlogDeleteEvent 0 (tableST [column ''id'' True])) = Some 0 \<and>
   Rows \<lparr>Rows = [0]\<rparr> = [0]"
  by (simp add: example_defs dispatch_defs)

section \<open>Update events with an odd number of rows\<close>

text \<open>
  C10. For an update event with an odd number of rows the constructor returns neither a
  statement list nor an error: it panics on the read of \<^verbatim>\<open>rowsEvent.Rows[i+1]\<close> at the
  last row, whose index \<open>i + 1\<close> is the number of rows; the index \<open>i / 2\<close> of the store
  that would follow is past the end of the result, too.
\<close>

theorem update_events_odd_rows_panic:
  assumes "odd (length (Rows rowsEvent))"
  shows "NewBinlogUpdateEvents table rowsEvent =
           Inl (IndexOutOfRange (length (Rows rowsEvent)) (length (Rows rowsEvent))) \<and>
         (\<forall>updateEvents err. NewBinlogUpdateEvents table rowsEvent \<noteq> Inr (updateEvents, err)) \<and>
         \<not> (length (Rows rowsEvent) - 1) div 2
             < length (replicate (length (Rows rowsEvent) div 2) (None :: DMLEvent option))"
proof -
  have "\<not> (length (Rows rowsEvent) - 1) div 2 < length (Rows rowsEvent) div 2"
    using assms by (auto elim!: oddE)
  then show ?thesis by (simp add: NewBinlogUpdateEvents_odd [OF assms])
qed

theorem update_events_odd_rows_panic_witness:
  "odd (length (Rows \<lparr>Rows = [10, 11, 12]\<rparr>)) \<and>
   NewBinlogUpdateEvents (tableST [column ''id'' False]) \<lparr>Rows = [10, 11, 12]\<rparr> =
     Inl (IndexOutOfRange 3 3)"
proof -
  have odd: "odd (length (Rows \<lparr>Rows = [10, 11, 12]\<rparr>))" by simp
  from update_events_odd_rows_panic [OF odd, of "tableST [column ''id'' False]"] odd
  show ?thesis by simp
qed

end
